theory Spec2Isabelle
  imports Main "HOL-Library.Word" "HOL-Library.AList"
begin

unbundle bit_operations_syntax

section \<open>JavaScript values\<close>

text \<open>
  A JavaScript string is a sequence of UTF-16 code units; \<open>charCodeAt\<close> reads one of them
  and yields \<open>NaN\<close> outside the string.  The numbers that occur in the colour functions are
  integers far below \<open>2 ^ 53\<close> (see \<open>seed_magnitude\<close> below), where double arithmetic is exact,
  or \<open>NaN\<close>; the 32-bit operators \<open><<\<close>, \<open>>>\<close> and \<open>&\<close> first convert their operands with
  ToInt32, which maps \<open>NaN\<close> to 0 and wraps modulo \<open>2 ^ 32\<close>.
\<close>

type_synonym jsString = "16 word list"

datatype jsnum = NaN | Num int

definition js :: "string \<Rightarrow> jsString" where
  "js s = map (\<lambda>c. word_of_nat (of_char c)) s"

definition charCodeAt :: "jsString \<Rightarrow> int \<Rightarrow> jsnum" where
  "charCodeAt s i = (if 0 \<le> i \<and> i < int (length s) then Num (uint (s ! nat i)) else NaN)"

fun jadd :: "jsnum \<Rightarrow> jsnum \<Rightarrow> jsnum" where
  "jadd (Num a) (Num b) = Num (a + b)"
| "jadd _ _ = NaN"

fun jsub :: "jsnum \<Rightarrow> jsnum \<Rightarrow> jsnum" where
  "jsub (Num a) (Num b) = Num (a - b)"
| "jsub _ _ = NaN"

fun jmul :: "jsnum \<Rightarrow> jsnum \<Rightarrow> jsnum" where
  "jmul (Num a) (Num b) = Num (a * b)"
| "jmul _ _ = NaN"

fun jabs :: "jsnum \<Rightarrow> jsnum" where
  "jabs (Num a) = Num \<bar>a\<bar>"
| "jabs NaN = NaN"

text \<open>The remainder operator \<open>%\<close> truncates: the result has the sign of the dividend.\<close>

fun jmod :: "jsnum \<Rightarrow> jsnum \<Rightarrow> jsnum" where
  "jmod (Num a) (Num b) = (if b = 0 then NaN else Num (sgn a * (\<bar>a\<bar> mod \<bar>b\<bar>)))"
| "jmod _ _ = NaN"

fun toInt32 :: "jsnum \<Rightarrow> 32 word" where
  "toInt32 NaN = 0"
| "toInt32 (Num a) = word_of_int a"

definition jshl :: "jsnum \<Rightarrow> nat \<Rightarrow> jsnum" where
  "jshl a n = Num (sint (push_bit (n mod 32) (toInt32 a)))"

definition jsar :: "jsnum \<Rightarrow> nat \<Rightarrow> jsnum" where
  "jsar a n = Num (sint (signed_drop_bit (n mod 32) (toInt32 a)))"

definition jand :: "jsnum \<Rightarrow> jsnum \<Rightarrow> jsnum" where
  "jand a b = Num (sint (toInt32 a AND toInt32 b))"

section \<open>Deterministic colour assignment (CollaborativeEditor.tsx)\<close>

text \<open>
  The loop shared by \<open>getUserColor\<close> and \<open>generateHashColor\<close>:
  \<^verbatim>\<open>hash = ((hash << 5) - hash) + userId.charCodeAt(i); hash = hash & hash;\<close>
\<close>

definition hashStep :: "jsnum \<Rightarrow> 16 word \<Rightarrow> jsnum" where
  "hashStep hash c = (let hash = jadd (jsub (jshl hash 5) hash) (Num (uint c)) in jand hash hash)"

definition hashLoop :: "jsString \<Rightarrow> jsnum" where
  "hashLoop userId = foldl hashStep (Num 0) userId"

definition colorPalette :: "string list" where
  "colorPalette =
    [''#E53E3E'', ''#FF8C00'', ''#FFD700'', ''#38A169'', ''#00B5D8'', ''#3182CE'', ''#805AD5'',
     ''#D53F8C'',
     ''#C53030'', ''#ED8936'', ''#ECC94B'', ''#48BB78'', ''#0BC5EA'', ''#4299E1'', ''#9F7AEA'',
     ''#ED64A6'',
     ''#E2E8F0'', ''#2D3748'', ''#B7791F'', ''#276749'', ''#2C5282'', ''#553C9A'', ''#97266D'',
     ''#744210'',
     ''#F56565'', ''#68D391'', ''#63B3ED'', ''#F687B3'', ''#FBB6CE'', ''#C6F6D5'']"

text \<open>
  A colour is a CSS string: an entry of the palette, or the text
  \<open>hsl(h, s%, l%)\<close>, kept here as its three numbers (the formatting is injective).
  Reading the palette at \<open>NaN\<close> gives \<open>undefined\<close>.
\<close>

datatype color = Undefined | Css string | Hsl jsnum jsnum jsnum

definition paletteAt :: "jsnum \<Rightarrow> color" where
  "paletteAt i = (case i of
      NaN \<Rightarrow> Undefined
    | Num k \<Rightarrow> if 0 \<le> k \<and> k < int (length colorPalette) then Css (colorPalette ! nat k)
               else Undefined)"

definition hashSeed :: "jsString \<Rightarrow> jsnum" where
  "hashSeed userId =
     jadd (jadd (hashLoop userId) (jmul (Num (int (length userId))) (Num 1000)))
          (jmul (charCodeAt userId (int (length userId) - 1)) (Num 100))"

definition generateHashColor :: "jsString \<Rightarrow> color" where
  "generateHashColor userId =
     (let hash = hashSeed userId;
          hue = jmod (jabs (jmul hash (Num 7))) (Num 360);
          saturation = jadd (Num 70) (jmod (jabs (jsar hash 8)) (Num 25));
          lightness = jadd (Num 45) (jmod (jabs (jsar hash 16)) (Num 20))
      in Hsl hue saturation lightness)"

record user =
  user_id :: jsString
  username :: jsString
  role :: string

type_synonym colorMap = "(jsString \<times> color) list"

definition paletteIndex :: "jsString \<Rightarrow> jsnum" where
  "paletteIndex userId =
     (let hash = hashLoop userId;
          hash = jadd (jadd hash (jmul (Num (int (length userId))) (Num 31)))
                      (jmul (charCodeAt userId 0) (Num 17));
          primeJump = Num 13
      in jmod (jmul (jabs hash) primeJump) (Num (int (length colorPalette))))"

text \<open>
  \<open>userColorMap\<close> is a \<open>Map\<close>: an association list in insertion order.  \<open>onlineUsers\<close> is the
  value of the React state that the closure of \<open>getUserColor\<close> sees.
\<close>

definition getUserColor :: "user list \<Rightarrow> jsString \<Rightarrow> colorMap \<Rightarrow> color \<times> colorMap" where
  "getUserColor onlineUsers userId userColorMap =
     (case map_of userColorMap userId of
        Some c \<Rightarrow> (c, userColorMap)
      | None \<Rightarrow>
         (let selectedColor = paletteAt (paletteIndex userId);
              existingUserWithSameColor =
                find (\<lambda>(existingUserId, color).
                        color = selectedColor \<and> existingUserId \<noteq> userId \<and>
                        list_ex (\<lambda>u. user_id u = existingUserId) onlineUsers)
                     userColorMap;
              selectedColor = (if existingUserWithSameColor \<noteq> None
                               then generateHashColor userId else selectedColor)
          in (selectedColor, AList.update userId selectedColor userColorMap)))"

text \<open>
  \<open>ensureUniqueColorsForAllUsers\<close>: evict the entries of users that are not online, then
  give every online user without an entry a colour, in the order of \<open>onlineUsers\<close>.
\<close>

definition ensureUniqueColorsForAllUsers :: "user list \<Rightarrow> colorMap \<Rightarrow> colorMap" where
  "ensureUniqueColorsForAllUsers onlineUsers userColorMap =
     (let onlineUserIds = set (map user_id onlineUsers);
          keysToDelete = filter (\<lambda>userId. userId \<notin> onlineUserIds) (map fst userColorMap);
          m = fold AList.delete keysToDelete userColorMap
      in fold (\<lambda>u m. if map_of m (user_id u) = None
                      then snd (getUserColor onlineUsers (user_id u) m) else m)
              onlineUsers m)"

text \<open>Two users whose identifiers fall on the same palette entry.\<close>

definition userA :: user where
  "userA = \<lparr>user_id = js ''a'', username = js ''A'', role = ''member''\<rparr>"

definition userF :: user where
  "userF = \<lparr>user_id = js ''f'', username = js ''F'', role = ''member''\<rparr>"

section \<open>The event channel (services/socket.ts)\<close>

text \<open>
  The messages the client emits on the socket.  A \<open>socket\<close> records its connection state
  and every \<open>emit\<close> made on it.
\<close>

datatype clientMessage =
    JoinRoom jsString user
  | LeaveRoom
  | RequestCreatorSave jsString

record socket =
  connected :: bool
  emitted :: "clientMessage list"

record socketService =
  socket :: "socket option"
  currentRoomId :: "jsString option"

definition emit :: "clientMessage \<Rightarrow> socket \<Rightarrow> socket" where
  "emit m so = so\<lparr>emitted := emitted so @ [m]\<rparr>"

definition joinRoom :: "jsString \<Rightarrow> user \<Rightarrow> socketService \<Rightarrow> socketService" where
  "joinRoom roomId u this =
     (case socket this of
        None \<Rightarrow> this
      | Some so \<Rightarrow>
          if \<not> connected so then this
          else this\<lparr>currentRoomId := Some roomId, socket := Some (emit (JoinRoom roomId u) so)\<rparr>)"

definition leaveRoom :: "socketService \<Rightarrow> socketService" where
  "leaveRoom this =
     (case socket this of
        None \<Rightarrow> this
      | Some so \<Rightarrow>
          if currentRoomId this = None \<or> currentRoomId this = Some [] then this
          else this\<lparr>socket := Some (emit LeaveRoom so), currentRoomId := None\<rparr>)"

definition requestCreatorSave :: "jsString \<Rightarrow> socketService \<Rightarrow> socketService" where
  "requestCreatorSave roomId this =
     (case socket this of
        None \<Rightarrow> this
      | Some so \<Rightarrow> this\<lparr>socket := Some (emit (RequestCreatorSave roomId) so)\<rparr>)"

text \<open>All messages emitted so far (none when there is no socket).\<close>

definition outbox :: "socketService \<Rightarrow> clientMessage list" where
  "outbox this = (case socket this of None \<Rightarrow> [] | Some so \<Rightarrow> emitted so)"

section \<open>The collaborative editor component (CollaborativeEditor.tsx)\<close>

text \<open>
  The component is modelled as a state machine.  Its state holds the React state and the
  refs of the component, a logical clock, the pending timers, the socket with the messages
  emitted on it, the calls made to \<open>roomsAPI.getRoom\<close>, \<open>message\<close> and \<open>navigate\<close>, and the
  place where the asynchronous \<open>handleSyncContent\<close> is suspended.  Every handler is a
  function from state to state.  A value set with a React setter is what the next handler
  reads (each handler runs against the latest render), a timer runs exactly at its due
  time, and a continuation after an \<open>await\<close> runs in the same instant as the event that
  resolves it.  Console output is not modelled.
\<close>

subsection \<open>State\<close>

record cursor =
  lineNumber :: int
  column :: int
  cursor_username :: jsString
  cursor_color :: color

record selection =
  startLineNumber :: int
  startColumn :: int
  endLineNumber :: int
  endColumn :: int
  selection_username :: jsString
  selection_color :: color

record member =
  member_user_id :: jsString
  member_role :: string

record room =
  members :: "member list"
  content :: "jsString option"
  language :: "jsString option"

text \<open>
  The callbacks passed to \<open>setTimeout\<close>, by the line that arms them: the 5 s mark of a
  processed \<open>user-left\<close>, the 100 ms colour clean-up, the 5 s typing expiry, the 10 s wait
  for \<open>content-saved-confirmation\<close> and the 500 ms pause before the fetch.
\<close>

datatype timerAction =
    ClearProcessedUserLeft jsString
  | CleanColorMapping jsString
  | RemoveTypingStatus jsString
  | SaveConfirmationTimeout
  | DatabaseWriteDelay

record timer =
  tid :: nat
  due :: int
  action :: timerAction

text \<open>Calls of \<open>message.info/warning/loading/success/error\<close>, in order.\<close>

datatype notification =
    UserJoinedInfo jsString
  | UserLeftInfo jsString
  | SyncCooldownWarning int
  | SyncingLoading
  | SyncSuccess
  | SyncFailedError
  | RoomNotFoundError

text \<open>
  Where the asynchronous \<open>handleSyncContent\<close> is suspended, with the \<open>roomId\<close> its closure
  holds: not running, at the \<open>await\<close> of the confirmation promise, at the \<open>await\<close> of the
  500 ms pause (with the value the promise resolved to), or at the \<open>await\<close> of
  \<open>roomsAPI.getRoom\<close>.
\<close>

datatype syncPc =
    Idle
  | AwaitingConfirmation jsString
  | WaitingDelay jsString bool
  | Fetching jsString

text \<open>The outcome of \<open>roomsAPI.getRoom\<close>: the response data, or a rejection with its HTTP status.\<close>

datatype fetchResult = FetchOk "room option" | FetchFailed "int option"

record editor =
  now :: int
  nextTimerId :: nat
  timers :: "timer list"
  me :: "jsString option"
  roomId :: "jsString option"
  room :: "room option"
  onlineUsers :: "user list"
  userColorMap :: colorMap
  userCursors :: "jsString \<rightharpoonup> cursor"
  userSelections :: "jsString \<rightharpoonup> selection"
  typingUsers :: "jsString set"
  typingTimeout :: "jsString \<rightharpoonup> nat"
  processedUserLeftEvents :: "jsString set"
  notifications :: "notification list"
  service :: socketService
  syncExecutingRef :: bool
  isSyncing :: bool
  lastSyncTime :: "int option"
  savePendingPromise :: bool
  saveTimeoutRef :: "nat option"
  pc :: syncPc
  fetches :: "(jsString \<times> bool) list"
  yjsDoc :: "jsString option"
  editorValue :: "jsString option"
  currentLanguage :: jsString
  lastSavedContent :: jsString
  lastSentContentHash :: "jsnum option"
  navigations :: "string list"

subsection \<open>Timers and notifications\<close>

text \<open>
  \<open>setTimeout\<close> returns a fresh handle and appends the timer to the pending ones;
  \<open>clearTimeout\<close> drops the timer with that handle.  \<open>now\<close> is \<open>Date.now()\<close> in
  milliseconds.
\<close>

definition setTimeout :: "timerAction \<Rightarrow> int \<Rightarrow> editor \<Rightarrow> nat \<times> editor" where
  "setTimeout a delay s =
     (nextTimerId s,
      s\<lparr>timers := timers s @ [\<lparr>tid = nextTimerId s, due = now s + delay, action = a\<rparr>],
        nextTimerId := Suc (nextTimerId s)\<rparr>)"

definition clearTimeout :: "nat \<Rightarrow> editor \<Rightarrow> editor" where
  "clearTimeout i s = s\<lparr>timers := filter (\<lambda>x. tid x \<noteq> i) (timers s)\<rparr>"

definition notify :: "notification \<Rightarrow> editor \<Rightarrow> editor" where
  "notify n s = s\<lparr>notifications := notifications s @ [n]\<rparr>"

subsection \<open>Presence handlers (setupSocketListeners)\<close>

definition onUserJoined :: "jsString \<Rightarrow> jsString \<Rightarrow> editor \<Rightarrow> editor" where
  "onUserJoined userId name s =
     (let newUser = \<lparr>user_id = userId, username = name, role = ''member''\<rparr>;
          s = s\<lparr>onlineUsers :=
                 (if find (\<lambda>u. user_id u = user_id newUser) (onlineUsers s) \<noteq> None
                  then onlineUsers s else onlineUsers s @ [newUser])\<rparr>
      in notify (UserJoinedInfo name) s)"

definition onUserLeft :: "jsString \<Rightarrow> jsString \<Rightarrow> editor \<Rightarrow> editor" where
  "onUserLeft userId name s =
     (if userId \<in> processedUserLeftEvents s then s
      else
        (let s = s\<lparr>processedUserLeftEvents := insert userId (processedUserLeftEvents s)\<rparr>;
             s = snd (setTimeout (ClearProcessedUserLeft userId) 5000 s);
             s = s\<lparr>onlineUsers := filter (\<lambda>u. user_id u \<noteq> userId) (onlineUsers s)\<rparr>;
             s = snd (setTimeout (CleanColorMapping userId) 100 s);
             s = s\<lparr>userCursors := (userCursors s)(userId := None)\<rparr>;
             s = s\<lparr>userSelections := (userSelections s)(userId := None)\<rparr>;
             s = s\<lparr>typingUsers := typingUsers s - {userId}\<rparr>
         in notify (UserLeftInfo name) s))"

definition onOnlineUsersUpdated :: "jsString \<Rightarrow> user list \<Rightarrow> editor \<Rightarrow> editor" where
  "onOnlineUsersUpdated rid users s =
     (if Some rid = roomId s then s\<lparr>onlineUsers := users\<rparr> else s)"

text \<open>
  \<open>userId === user?.id || String(userId) === String(user?.id)\<close>: without a logged-in user
  the right-hand side is the text \<open>undefined\<close>.
\<close>

definition isOwnCursor :: "jsString \<Rightarrow> editor \<Rightarrow> bool" where
  "isOwnCursor userId s =
     (me s = Some userId \<or> userId = (case me s of None \<Rightarrow> js ''undefined'' | Some i \<Rightarrow> i))"

text \<open>
  The \<open>getUserColor\<close> of a listener sees the \<open>onlineUsers\<close> of the render that registered
  the listeners; the handlers below pass the current value.  No statement about them
  depends on which of the two it is.
\<close>

definition onCursorPositionChanged ::
    "jsString \<Rightarrow> jsString \<Rightarrow> int \<Rightarrow> int \<Rightarrow> editor \<Rightarrow> editor" where
  "onCursorPositionChanged userId name line col s =
     (if isOwnCursor userId s then s
      else
        (let (color, m) = getUserColor (onlineUsers s) userId (userColorMap s);
             s = s\<lparr>userColorMap := m\<rparr>
         in s\<lparr>userCursors := (userCursors s)(userId \<mapsto>
                 \<lparr>lineNumber = line, column = col, cursor_username = name,
                  cursor_color = color\<rparr>)\<rparr>))"

definition onUserTyping :: "jsString \<Rightarrow> jsString \<Rightarrow> editor \<Rightarrow> editor" where
  "onUserTyping userId name s =
     (if me s = Some userId then s
      else
        (let s = s\<lparr>typingUsers := insert userId (typingUsers s)\<rparr>;
             s = (case typingTimeout s userId of Some i \<Rightarrow> clearTimeout i s | None \<Rightarrow> s);
             (timeout, s) = setTimeout (RemoveTypingStatus userId) 5000 s
         in s\<lparr>typingTimeout := (typingTimeout s)(userId \<mapsto> timeout)\<rparr>))"

definition onUserStoppedTyping :: "jsString \<Rightarrow> editor \<Rightarrow> editor" where
  "onUserStoppedTyping userId s =
     (let s = s\<lparr>typingUsers := typingUsers s - {userId}\<rparr>
      in case typingTimeout s userId of
           Some i \<Rightarrow> (clearTimeout i s)\<lparr>typingTimeout := (typingTimeout s)(userId := None)\<rparr>
         | None \<Rightarrow> s)"

definition onSelectionChanged ::
    "jsString \<Rightarrow> jsString \<Rightarrow> int \<Rightarrow> int \<Rightarrow> int \<Rightarrow> int \<Rightarrow> editor \<Rightarrow> editor" where
  "onSelectionChanged userId name sl sc el ec s =
     (if me s = Some userId then s
      else
        (let (color, m) = getUserColor (onlineUsers s) userId (userColorMap s);
             s = s\<lparr>userColorMap := m\<rparr>
         in s\<lparr>userSelections := (userSelections s)(userId \<mapsto>
                 \<lparr>startLineNumber = sl, startColumn = sc, endLineNumber = el, endColumn = ec,
                  selection_username = name, selection_color = color\<rparr>)\<rparr>))"

definition onSelectionCleared :: "jsString \<Rightarrow> editor \<Rightarrow> editor" where
  "onSelectionCleared userId s = s\<lparr>userSelections := (userSelections s)(userId := None)\<rparr>"

subsection \<open>The save arbitration protocol (handleSyncContent)\<close>

definition isRoomAdmin :: "editor \<Rightarrow> bool" where
  "isRoomAdmin s =
     (case room s of
        None \<Rightarrow> False
      | Some r \<Rightarrow>
          (case find (\<lambda>m. Some (member_user_id m) = me s) (members r) of
             None \<Rightarrow> False
           | Some currentMember \<Rightarrow> member_role currentMember = ''admin''))"

definition COOLDOWN_TIME :: int where
  "COOLDOWN_TIME = 60 * 1000"

text \<open>\<open>lastSyncTime && (now - lastSyncTime) < COOLDOWN_TIME\<close>: \<open>null\<close> and 0 are falsy.\<close>

definition cooldownActive :: "editor \<Rightarrow> bool" where
  "cooldownActive s =
     (case lastSyncTime s of
        None \<Rightarrow> False
      | Some l \<Rightarrow> l \<noteq> 0 \<and> now s - l < COOLDOWN_TIME)"

definition remainingTime :: "editor \<Rightarrow> int" where
  "remainingTime s =
     (case lastSyncTime s of
        None \<Rightarrow> 0
      | Some l \<Rightarrow> - ((- (COOLDOWN_TIME - (now s - l))) div 1000))"

text \<open>
  The synchronous prefix of \<open>handleSyncContent\<close>: the guards, the lock, and for a
  non-admin the request with its 10 s timer; an admin goes straight to the fetch.
  \<open>roomsAPI.getRoom(roomId, true)\<close> is recorded in \<open>fetches\<close> with its \<open>skipCache\<close> flag.
\<close>

definition handleSyncContent :: "editor \<Rightarrow> editor" where
  "handleSyncContent s =
     (if syncExecutingRef s then s
      else
        (case roomId s of
           None \<Rightarrow> s
         | Some rid \<Rightarrow>
             if rid = [] \<or> room s = None \<or> isSyncing s then s
             else if cooldownActive s then notify (SyncCooldownWarning (remainingTime s)) s
             else
               (let s = s\<lparr>syncExecutingRef := True\<rparr>;
                    s = s\<lparr>isSyncing := True\<rparr>;
                    s = notify SyncingLoading s
                in if \<not> isRoomAdmin s then
                     (let s = s\<lparr>service := requestCreatorSave rid (service s)\<rparr>;
                          s = s\<lparr>savePendingPromise := True\<rparr>;
                          (timeout, s) = setTimeout SaveConfirmationTimeout 10000 s
                      in s\<lparr>saveTimeoutRef := Some timeout, pc := AwaitingConfirmation rid\<rparr>)
                   else s\<lparr>fetches := fetches s @ [(rid, True)], pc := Fetching rid\<rparr>)))"

text \<open>
  Resolving the pending promise resumes \<open>handleSyncContent\<close> after its first \<open>await\<close>: it
  arms the 500 ms pause.
\<close>

definition resolveSavePending :: "bool \<Rightarrow> editor \<Rightarrow> editor" where
  "resolveSavePending saveConfirmed s =
     (let s = s\<lparr>savePendingPromise := False\<rparr>
      in case pc s of
           AwaitingConfirmation rid \<Rightarrow>
             snd (setTimeout DatabaseWriteDelay 500 (s\<lparr>pc := WaitingDelay rid saveConfirmed\<rparr>))
         | _ \<Rightarrow> s)"

definition onContentSavedConfirmation :: "editor \<Rightarrow> editor" where
  "onContentSavedConfirmation s =
     (if savePendingPromise s then
        (let s = (case saveTimeoutRef s of
                    Some i \<Rightarrow> (clearTimeout i s)\<lparr>saveTimeoutRef := None\<rparr>
                  | None \<Rightarrow> s)
         in resolveSavePending True s)
      else s)"

definition simpleHash :: "jsString \<Rightarrow> jsnum" where
  "simpleHash str = (if length str = 0 then Num 0 else foldl hashStep (Num 0) str)"

text \<open>The \<open>finally\<close> block.\<close>

definition releaseLock :: "editor \<Rightarrow> editor" where
  "releaseLock s = s\<lparr>isSyncing := False, syncExecutingRef := False, pc := Idle\<rparr>"

definition syncLanguage :: "room \<Rightarrow> editor \<Rightarrow> editor" where
  "syncLanguage latestRoom s =
     (case language latestRoom of
        None \<Rightarrow> s
      | Some l \<Rightarrow> if l \<noteq> [] \<and> l \<noteq> currentLanguage s then s\<lparr>currentLanguage := l\<rparr> else s)"

text \<open>
  The inner \<open>try\<close>: replace the text of the live document (through Y.js, or through the
  editor when there is no Y.js document), then record the success.  \<open>replaceThrows\<close> says
  whether the replacing call raises; the inner \<open>catch\<close> then reports the failure.
\<close>

definition applySyncedContent :: "room \<Rightarrow> bool \<Rightarrow> editor \<Rightarrow> editor" where
  "applySyncedContent latestRoom replaceThrows s =
     (let syncContent = (case content latestRoom of None \<Rightarrow> [] | Some c \<Rightarrow> c)
      in if yjsDoc s \<noteq> None then
           (if replaceThrows then notify SyncFailedError s
            else
              (let s = s\<lparr>yjsDoc := Some syncContent\<rparr>;
                   s = s\<lparr>lastSavedContent := syncContent\<rparr>;
                   s = s\<lparr>lastSentContentHash := Some (simpleHash syncContent)\<rparr>;
                   s = notify SyncSuccess s
               in s\<lparr>lastSyncTime := Some (now s)\<rparr>))
         else if editorValue s \<noteq> None then
           (if replaceThrows then notify SyncFailedError s
            else
              (let s = s\<lparr>editorValue := Some syncContent\<rparr>;
                   s = s\<lparr>lastSavedContent := syncContent\<rparr>;
                   s = s\<lparr>lastSentContentHash := Some (simpleHash syncContent)\<rparr>;
                   s = notify SyncSuccess s
               in s\<lparr>lastSyncTime := Some (now s)\<rparr>))
         else s)"

text \<open>\<open>handleSyncContent\<close> from the completion of \<open>roomsAPI.getRoom\<close> to its end.\<close>

definition fetchCompleted :: "fetchResult \<Rightarrow> bool \<Rightarrow> editor \<Rightarrow> editor" where
  "fetchCompleted result replaceThrows s =
     (case pc s of
        Fetching rid \<Rightarrow>
          (case result of
             FetchOk None \<Rightarrow> releaseLock (notify SyncFailedError s)
           | FetchOk (Some latestRoom) \<Rightarrow>
               releaseLock (applySyncedContent latestRoom replaceThrows (syncLanguage latestRoom s))
           | FetchFailed status \<Rightarrow>
               releaseLock
                 (notify (if status = Some 404 then RoomNotFoundError else SyncFailedError) s))
      | _ \<Rightarrow> s)"


subsection \<open>Running the timers\<close>

fun truthy :: "color \<Rightarrow> bool" where
  "truthy Undefined = False"
| "truthy (Css c) = (c \<noteq> [])"
| "truthy (Hsl h sa l) = True"

fun fire :: "timerAction \<Rightarrow> editor \<Rightarrow> editor" where
  "fire (ClearProcessedUserLeft userId) s =
     s\<lparr>processedUserLeftEvents := processedUserLeftEvents s - {userId}\<rparr>"
| "fire (CleanColorMapping userId) s =
     (case map_of (userColorMap s) userId of
        None \<Rightarrow> s
      | Some userColor \<Rightarrow>
          if truthy userColor then s\<lparr>userColorMap := AList.delete userId (userColorMap s)\<rparr>
          else s)"
| "fire (RemoveTypingStatus userId) s =
     s\<lparr>typingUsers := typingUsers s - {userId},
       typingTimeout := (typingTimeout s)(userId := None)\<rparr>"
| "fire SaveConfirmationTimeout s =
     (let s = (if savePendingPromise s then resolveSavePending False s else s)
      in s\<lparr>saveTimeoutRef := None\<rparr>)"
| "fire DatabaseWriteDelay s =
     (case pc s of
        WaitingDelay rid saveConfirmed \<Rightarrow> s\<lparr>fetches := fetches s @ [(rid, True)], pc := Fetching rid\<rparr>
      | _ \<Rightarrow> s)"

text \<open>
  A pending timer runs at its due time: the clock moves there, the timer leaves the
  pending ones and its callback runs.
\<close>

definition runTimer :: "timer \<Rightarrow> editor \<Rightarrow> editor" where
  "runTimer tm s =
     fire (action tm) (s\<lparr>now := max (now s) (due tm), timers := remove1 tm (timers s)\<rparr>)"

text \<open>The timer that is due first; among equals the one armed first.\<close>

fun earliest :: "timer list \<Rightarrow> timer option" where
  "earliest [] = None"
| "earliest (x # xs) =
     (case earliest xs of
        None \<Rightarrow> Some x
      | Some y \<Rightarrow> if due x \<le> due y then Some x else Some y)"

fun weight :: "timer \<Rightarrow> nat" where
  "weight tm = (if action tm = SaveConfirmationTimeout then 2 else 1)"

lemma earliest_in_set: "earliest xs = Some tm \<Longrightarrow> tm \<in> set xs"
  by (induction xs arbitrary: tm) (auto split: option.splits if_splits)

lemma weight_remove1:
  "tm \<in> set xs \<Longrightarrow> sum_list (map weight (remove1 tm xs)) + weight tm = sum_list (map weight xs)"
  by (induction xs) auto

lemma weight_fire:
  "sum_list (map weight (timers (fire a s)))
     \<le> sum_list (map weight (timers s)) + (if a = SaveConfirmationTimeout then 1 else 0)"
  by (cases a)
     (auto simp: resolveSavePending_def setTimeout_def Let_def split: option.splits syncPc.splits)

lemma weight_runTimer:
  assumes "tm \<in> set (timers s)"
  shows "sum_list (map weight (timers (runTimer tm s))) < sum_list (map weight (timers s))"
proof -
  let ?s = "s\<lparr>now := max (now s) (due tm), timers := remove1 tm (timers s)\<rparr>"
  have "sum_list (map weight (timers ?s)) + weight tm = sum_list (map weight (timers s))"
    using weight_remove1 [OF assms] by simp
  moreover have "sum_list (map weight (timers (fire (action tm) ?s)))
      \<le> sum_list (map weight (timers ?s)) + (if action tm = SaveConfirmationTimeout then 1 else 0)"
    by (rule weight_fire)
  ultimately show ?thesis by (simp add: runTimer_def split: if_splits)
qed

text \<open>
  Time passes until \<open>t\<close>: every timer due by then runs, in order of its due time
  (a callback may arm further timers), and the clock ends at \<open>t\<close>.
\<close>

function advance :: "int \<Rightarrow> editor \<Rightarrow> editor" where
  "advance t s =
     (case earliest (filter (\<lambda>x. due x \<le> t) (timers s)) of
        None \<Rightarrow> s\<lparr>now := max (now s) t\<rparr>
      | Some tm \<Rightarrow> advance t (runTimer tm s))"
  by pat_completeness auto
termination
proof (relation "measure (\<lambda>(t, s :: editor). sum_list (map weight (timers s)))")
  show "wf (measure (\<lambda>(t :: int, s :: editor). sum_list (map weight (timers s))))" by simp
next
  fix t :: int and s :: editor and tm
  assume "earliest (filter (\<lambda>x. due x \<le> t) (timers s)) = Some tm"
  then have "tm \<in> set (timers s)" using earliest_in_set by fastforce
  then show "((t, runTimer tm s), (t, s))
      \<in> measure (\<lambda>(t, s :: editor). sum_list (map weight (timers s)))"
    using weight_runTimer by simp
qed

subsection \<open>Events\<close>

datatype event =
    UserJoined jsString jsString
  | UserLeft jsString jsString
  | OnlineUsersUpdated jsString "user list"
  | CursorMoved jsString jsString int int
  | UserTyping jsString jsString
  | UserStoppedTyping jsString
  | SelectionChanged jsString jsString int int int int
  | SelectionCleared jsString
  | ContentSavedConfirmation
  | SyncRequested
  | FetchCompleted fetchResult bool
  | TimePasses int

fun step :: "event \<Rightarrow> editor \<Rightarrow> editor" where
  "step (UserJoined userId name) s = onUserJoined userId name s"
| "step (UserLeft userId name) s = onUserLeft userId name s"
| "step (OnlineUsersUpdated rid users) s = onOnlineUsersUpdated rid users s"
| "step (CursorMoved userId name line col) s = onCursorPositionChanged userId name line col s"
| "step (UserTyping userId name) s = onUserTyping userId name s"
| "step (UserStoppedTyping userId) s = onUserStoppedTyping userId s"
| "step (SelectionChanged userId name sl sc el ec) s = onSelectionChanged userId name sl sc el ec s"
| "step (SelectionCleared userId) s = onSelectionCleared userId s"
| "step ContentSavedConfirmation s = onContentSavedConfirmation s"
| "step SyncRequested s = handleSyncContent s"
| "step (FetchCompleted result replaceThrows) s = fetchCompleted result replaceThrows s"
| "step (TimePasses t) s = advance t s"

subsection \<open>Invariants\<close>

text \<open>
  What holds in every state the component reaches: timer handles are fresh; the pending
  typing timer of a user is the one stored in \<open>typingTimeout\<close>; a pending mark-clearing
  timer belongs to a marked user and there is one at most; the lock, the promise and the
  two timers of the protocol agree with the place where \<open>handleSyncContent\<close> is suspended;
  and the clock is positive (\<open>Date.now()\<close> counts from 1970).
\<close>

definition timersInv :: "editor \<Rightarrow> bool" where
  "timersInv s =
     (distinct (map tid (timers s)) \<and> (\<forall>tm \<in> set (timers s). tid tm < nextTimerId s))"

definition atMostOne :: "timerAction \<Rightarrow> timer list \<Rightarrow> bool" where
  "atMostOne a ts = (length (filter (\<lambda>tm. action tm = a) ts) \<le> 1)"

definition typingInv :: "editor \<Rightarrow> bool" where
  "typingInv s =
     (\<forall>tm \<in> set (timers s). \<forall>u. action tm = RemoveTypingStatus u \<longrightarrow>
        typingTimeout s u = Some (tid tm))"

definition leftInv :: "editor \<Rightarrow> bool" where
  "leftInv s =
     ((\<forall>tm \<in> set (timers s). \<forall>u. action tm = ClearProcessedUserLeft u \<longrightarrow>
         u \<in> processedUserLeftEvents s) \<and>
      (\<forall>u. atMostOne (ClearProcessedUserLeft u) (timers s)))"

definition syncInv :: "editor \<Rightarrow> bool" where
  "syncInv s =
     ((syncExecutingRef s \<longleftrightarrow> pc s \<noteq> Idle) \<and>
      (isSyncing s \<longleftrightarrow> pc s \<noteq> Idle) \<and>
      (savePendingPromise s \<longleftrightarrow> (\<exists>rid. pc s = AwaitingConfirmation rid)) \<and>
      (\<forall>tm \<in> set (timers s). action tm = SaveConfirmationTimeout \<longrightarrow>
         savePendingPromise s \<and> saveTimeoutRef s = Some (tid tm)) \<and>
      (\<forall>tm \<in> set (timers s). action tm = DatabaseWriteDelay \<longrightarrow>
         (\<exists>rid b. pc s = WaitingDelay rid b)) \<and>
      atMostOne DatabaseWriteDelay (timers s))"

definition clockInv :: "editor \<Rightarrow> bool" where
  "clockInv s = (0 < now s \<and> (\<forall>l. lastSyncTime s = Some l \<longrightarrow> 0 < l))"

definition editorInv :: "editor \<Rightarrow> bool" where
  "editorInv s = (timersInv s \<and> typingInv s \<and> leftInv s \<and> syncInv s \<and> clockInv s)"

text \<open>
  The component after mounting, and the states reachable from there through the events.
\<close>

definition initial :: "editor \<Rightarrow> bool" where
  "initial s =
     (0 < now s \<and> timers s = [] \<and> typingUsers s = {} \<and> typingTimeout s = Map.empty \<and>
      processedUserLeftEvents s = {} \<and> userCursors s = Map.empty \<and>
      userSelections s = Map.empty \<and> userColorMap s = [] \<and> notifications s = [] \<and>
      \<not> syncExecutingRef s \<and> \<not> isSyncing s \<and> lastSyncTime s = None \<and>
      \<not> savePendingPromise s \<and> saveTimeoutRef s = None \<and> pc s = Idle \<and> fetches s = [] \<and>
      navigations s = [])"

inductive reachable :: "editor \<Rightarrow> bool" where
  from_initial: "initial s \<Longrightarrow> reachable s"
| after_step: "reachable s \<Longrightarrow> reachable (step e s)"


subsection \<open>A concrete client\<close>

text \<open>
  Client \<open>b\<close>, a member (not the admin) of room \<open>r1\<close>, right after mounting: connected, with
  an empty document, at clock value 1000.
\<close>

definition roomR1 :: room where
  "roomR1 =
     \<lparr>members = [\<lparr>member_user_id = js ''a'', member_role = ''admin''\<rparr>,
                 \<lparr>member_user_id = js ''b'', member_role = ''member''\<rparr>],
      content = Some (js ''fn main() {}''), language = Some (js ''rust'')\<rparr>"

definition mountedAsMember :: editor where
  "mountedAsMember =
     \<lparr>now = 1000, nextTimerId = 0, timers = [], me = Some (js ''b''),
      roomId = Some (js ''r1''), room = Some roomR1, onlineUsers = [], userColorMap = [],
      userCursors = Map.empty, userSelections = Map.empty, typingUsers = {},
      typingTimeout = Map.empty, processedUserLeftEvents = {}, notifications = [],
      service = \<lparr>socket = Some \<lparr>connected = True, emitted = []\<rparr>,
                 currentRoomId = Some (js ''r1'')\<rparr>,
      syncExecutingRef = False, isSyncing = False, lastSyncTime = None,
      savePendingPromise = False, saveTimeoutRef = None, pc = Idle, fetches = [],
      yjsDoc = Some [], editorValue = Some [], currentLanguage = js ''rust'',
      lastSavedContent = [], lastSentContentHash = None, navigations = []\<rparr>"

text \<open>The replica was replaced by the fetched content and the success was recorded.\<close>

definition syncSucceeded :: "room \<Rightarrow> editor \<Rightarrow> editor \<Rightarrow> bool" where
  "syncSucceeded latestRoom s s' =
     (let syncContent = (case content latestRoom of None \<Rightarrow> [] | Some c \<Rightarrow> c)
      in (yjsDoc s \<noteq> None \<and> yjsDoc s' = Some syncContent \<or>
          yjsDoc s = None \<and> editorValue s \<noteq> None \<and> editorValue s' = Some syncContent) \<and>
         notifications s' = notifications s @ [SyncSuccess] \<and>
         lastSyncTime s' = Some (now s) \<and> pc s' = Idle)"

text \<open>The colour entry of a user is gone (or was never a colour) once the clean-up ran.\<close>

definition colorCleaned :: "jsString \<Rightarrow> editor \<Rightarrow> bool" where
  "colorCleaned u s = (case map_of (userColorMap s) u of None \<Rightarrow> True | Some c \<Rightarrow> \<not> truthy c)"

subsection \<open>The phases of a running sync\<close>

text \<open>
  The timers of the protocol, and the three places where a running \<open>handleSyncContent\<close>
  waits: for the confirmation (with its timeout timer pending, due at \<open>d\<close>), for the 500 ms
  pause (its timer pending, due at \<open>e\<close>), and for the answer to the fetch it has issued.
  \<open>F\<close> is the list of fetches made before this sync.
\<close>

definition isSyncTimer :: "timer \<Rightarrow> bool" where
  "isSyncTimer tm = (action tm = SaveConfirmationTimeout \<or> action tm = DatabaseWriteDelay)"

definition syncTimers :: "editor \<Rightarrow> timer list" where
  "syncTimers s = filter isSyncTimer (timers s)"

definition awaiting :: "jsString \<Rightarrow> (jsString \<times> bool) list \<Rightarrow> nat \<Rightarrow> int \<Rightarrow> editor \<Rightarrow> bool" where
  "awaiting rid F k d s =
     (pc s = AwaitingConfirmation rid \<and> savePendingPromise s \<and> saveTimeoutRef s = Some k \<and>
      fetches s = F \<and>
      syncTimers s = [\<lparr>tid = k, due = d, action = SaveConfirmationTimeout\<rparr>] \<and> now s \<le> d)"

definition settling :: "jsString \<Rightarrow> (jsString \<times> bool) list \<Rightarrow> bool \<Rightarrow> int \<Rightarrow> editor \<Rightarrow> bool" where
  "settling rid F b e s =
     (pc s = WaitingDelay rid b \<and> \<not> savePendingPromise s \<and> fetches s = F \<and>
      (\<exists>i. syncTimers s = [\<lparr>tid = i, due = e, action = DatabaseWriteDelay\<rparr>]))"

definition fetching :: "jsString \<Rightarrow> (jsString \<times> bool) list \<Rightarrow> editor \<Rightarrow> bool" where
  "fetching rid F s =
     (pc s = Fetching rid \<and> fetches s = F @ [(rid, True)] \<and> syncTimers s = [])"

declare advance.simps [simp del]

section \<open>Time and invariants\<close>

lemma earliest_None: "earliest xs = None \<longleftrightarrow> xs = []"
  by (induction xs) (auto split: option.splits)

lemma earliest_least: "earliest xs = Some tm \<Longrightarrow> x \<in> set xs \<Longrightarrow> due tm \<le> due x"
  by (induction xs arbitrary: tm) (fastforce split: option.splits if_splits simp: earliest_None)+

lemma advance_rule:
  assumes "P s"
    and run: "\<And>s tm. P s \<Longrightarrow> tm \<in> set (timers s) \<Longrightarrow> due tm \<le> t \<Longrightarrow>
               (\<forall>x \<in> set (timers s). due x \<le> t \<longrightarrow> due tm \<le> due x) \<Longrightarrow> P (runTimer tm s)"
    and stop: "\<And>s. P s \<Longrightarrow> (\<forall>x \<in> set (timers s). t < due x) \<Longrightarrow> P (s\<lparr>now := max (now s) t\<rparr>)"
  shows "P (advance t s)"
  using assms
proof (induction t s rule: advance.induct)
  case (1 t s)
  note P = "1.prems"(1) and run = "1.prems"(2) and stop = "1.prems"(3)
  show ?case
  proof (cases "earliest (filter (\<lambda>x. due x \<le> t) (timers s))")
    case None
    then have "\<forall>x \<in> set (timers s). t < due x"
      by (auto simp: earliest_None filter_empty_conv)
    then have "P (s\<lparr>now := max (now s) t\<rparr>)" using stop P by blast
    then show ?thesis using None by (simp add: advance.simps [of t s])
  next
    case (Some tm)
    have mem: "tm \<in> set (filter (\<lambda>x. due x \<le> t) (timers s))"
      using earliest_in_set [OF Some] .
    have least: "\<forall>x \<in> set (timers s). due x \<le> t \<longrightarrow> due tm \<le> due x"
      using earliest_least [OF Some] by auto
    have "P (runTimer tm s)" using run P least mem by auto
    then have "P (advance t (runTimer tm s))"
      using "1.IH" [OF Some] run stop by blast
    then show ?thesis using Some by (simp add: advance.simps [of t s])
  qed
qed

lemmas handler_defs = onUserJoined_def onUserLeft_def onOnlineUsersUpdated_def
  onCursorPositionChanged_def onUserTyping_def onUserStoppedTyping_def onSelectionChanged_def
  onSelectionCleared_def handleSyncContent_def onContentSavedConfirmation_def
  resolveSavePending_def fetchCompleted_def releaseLock_def applySyncedContent_def
  syncLanguage_def setTimeout_def clearTimeout_def notify_def

lemma filter_remove1_single:
  "tm \<in> set xs \<Longrightarrow> P tm \<Longrightarrow> length (filter P xs) \<le> 1 \<Longrightarrow> filter P (remove1 tm xs) = []"
proof (induction xs)
  case Nil
  then show ?case by simp
next
  case (Cons x xs)
  show ?case
  proof (cases "x = tm")
    case True
    then show ?thesis using Cons.prems by (auto simp: filter_empty_conv)
  next
    case False
    then have "tm \<in> set xs" using Cons.prems by simp
    moreover have "\<not> P x"
    proof
      assume "P x"
      then have "filter P xs = []" using Cons.prems(3) by simp
      then show False using \<open>tm \<in> set xs\<close> Cons.prems(2) by (simp add: filter_empty_conv)
    qed
    ultimately show ?thesis using Cons False by simp
  qed
qed

lemma in_remove1D: "x \<in> set (remove1 y xs) \<Longrightarrow> x \<in> set xs"
  using set_remove1_subset [of y xs] by blast

lemma length_filter_remove1: "length (filter P (remove1 x xs)) \<le> length (filter P xs)"
  by (induction xs) auto

lemma length_filter_filter: "length (filter P (filter Q xs)) \<le> length (filter P xs)"
  by (induction xs) auto

lemma length_filter_le1_empty:
  "length (filter P xs) \<le> 1 \<Longrightarrow> x \<in> set xs \<Longrightarrow> P x \<Longrightarrow> y \<in> set (remove1 x xs) \<Longrightarrow> \<not> P y"
  using filter_remove1_single [of x xs P] by (auto simp: filter_empty_conv)

subsection \<open>Timer handles\<close>

lemma remove1_by_tid:
  "distinct (map tid xs) \<Longrightarrow> tm \<in> set xs \<Longrightarrow> remove1 tm xs = filter (\<lambda>x. tid x \<noteq> tid tm) xs"
proof (induction xs)
  case Nil
  then show ?case by simp
next
  case (Cons a xs)
  show ?case
  proof (cases "a = tm")
    case True
    have "tid tm \<notin> tid ` set xs" using Cons.prems(1) True by simp
    then have "\<forall>x \<in> set xs. tid x \<noteq> tid tm" by (metis imageI)
    then have "filter (\<lambda>x. tid x \<noteq> tid tm) xs = xs" by (simp add: filter_id_conv)
    then show ?thesis using True by simp
  next
    case False
    then have "tm \<in> set xs" using Cons.prems(2) by simp
    moreover have "tid a \<notin> tid ` set xs" using Cons.prems(1) by simp
    then have "tid a \<noteq> tid tm" using \<open>tm \<in> set xs\<close> by (metis imageI)
    ultimately show ?thesis using Cons False by simp
  qed
qed

lemma timersInv_step:
  assumes "timersInv s"
  shows "timersInv (onUserJoined u n s)"
    and "timersInv (onUserLeft u n s)"
    and "timersInv (onOnlineUsersUpdated r us s)"
    and "timersInv (onCursorPositionChanged u n l c s)"
    and "timersInv (onUserTyping u n s)"
    and "timersInv (onUserStoppedTyping u s)"
    and "timersInv (onSelectionChanged u n a b c d s)"
    and "timersInv (onSelectionCleared u s)"
    and "timersInv (onContentSavedConfirmation s)"
    and "timersInv (handleSyncContent s)"
    and "timersInv (fetchCompleted r' th s)"
  using assms
  by (fastforce simp: timersInv_def handler_defs Let_def distinct_map_filter
      split: option.splits if_splits prod.splits syncPc.splits fetchResult.splits)+

lemma timersInv_runTimer:
  assumes "timersInv s" "tm \<in> set (timers s)"
  shows "timersInv (runTimer tm s)"
  using assms
  by (cases "action tm")
     (auto simp: timersInv_def runTimer_def handler_defs Let_def remove1_by_tid
      distinct_map_filter less_SucI
      split: option.splits if_splits prod.splits syncPc.splits)

subsection \<open>Typing timers\<close>

lemma typingInv_step:
  assumes "typingInv s"
  shows "typingInv (onUserJoined u n s)"
    and "typingInv (onUserLeft u n s)"
    and "typingInv (onOnlineUsersUpdated r us s)"
    and "typingInv (onCursorPositionChanged u n l c s)"
    and "typingInv (onUserTyping u n s)"
    and "typingInv (onUserStoppedTyping u s)"
    and "typingInv (onSelectionChanged u n a b c d s)"
    and "typingInv (onSelectionCleared u s)"
    and "typingInv (onContentSavedConfirmation s)"
    and "typingInv (handleSyncContent s)"
    and "typingInv (fetchCompleted r' th s)"
  using assms
  by (auto simp: typingInv_def handler_defs Let_def
      split: option.splits if_splits prod.splits syncPc.splits fetchResult.splits)


lemma typingInv_runTimer:
  assumes "typingInv s" "timersInv s" "tm \<in> set (timers s)"
  shows "typingInv (runTimer tm s)"
proof (cases "action tm")
  case (RemoveTypingStatus u)
  have rest: "remove1 tm (timers s) = filter (\<lambda>x. tid x \<noteq> tid tm) (timers s)"
    using assms(2,3) by (simp add: timersInv_def remove1_by_tid)
  have "typingTimeout s u = Some (tid tm)"
    using assms(1,3) RemoveTypingStatus by (simp add: typingInv_def)
  then have "\<forall>x \<in> set (remove1 tm (timers s)). action x \<noteq> RemoveTypingStatus u"
    using assms(1) unfolding rest typingInv_def by fastforce
  then show ?thesis
    using assms(1) RemoveTypingStatus
    by (auto simp: typingInv_def runTimer_def dest: in_remove1D)
qed (use assms in \<open>auto simp: typingInv_def runTimer_def handler_defs Let_def
      split: option.splits if_splits prod.splits syncPc.splits dest: in_remove1D\<close>)

subsection \<open>At most one pending timer of a kind\<close>

lemma atMostOne_Nil [simp]: "atMostOne a []"
  by (simp add: atMostOne_def)

lemma atMostOne_append_Cons [simp]:
  "atMostOne a (xs @ n # ns) \<longleftrightarrow>
     (if action n = a then (\<forall>x \<in> set xs \<union> set ns. action x \<noteq> a) else atMostOne a (xs @ ns))"
  by (auto simp: atMostOne_def filter_empty_conv)

lemma atMostOne_filter [simp]: "atMostOne a xs \<Longrightarrow> atMostOne a (filter Q xs)"
  using length_filter_filter [of "\<lambda>tm. action tm = a" Q xs] by (simp add: atMostOne_def)

lemma atMostOne_remove1 [simp]: "atMostOne a xs \<Longrightarrow> atMostOne a (remove1 tm xs)"
  using length_filter_remove1 [of "\<lambda>tm. action tm = a" tm xs] by (simp add: atMostOne_def)

lemma atMostOne_fired:
  "atMostOne a xs \<Longrightarrow> tm \<in> set xs \<Longrightarrow> action tm = a \<Longrightarrow> x \<in> set (remove1 tm xs) \<Longrightarrow> action x \<noteq> a"
  using length_filter_le1_empty [of "\<lambda>tm. action tm = a" xs tm x] by (simp add: atMostOne_def)

subsection \<open>Marks of processed leave events\<close>

lemma leftInv_step:
  assumes "leftInv s"
  shows "leftInv (onUserJoined u n s)"
    and "leftInv (onUserLeft u n s)"
    and "leftInv (onOnlineUsersUpdated r us s)"
    and "leftInv (onCursorPositionChanged u n l c s)"
    and "leftInv (onUserTyping u n s)"
    and "leftInv (onUserStoppedTyping u s)"
    and "leftInv (onSelectionChanged u n a b c d s)"
    and "leftInv (onSelectionCleared u s)"
    and "leftInv (onContentSavedConfirmation s)"
    and "leftInv (handleSyncContent s)"
    and "leftInv (fetchCompleted r' th s)"
  using assms
  by (auto simp: leftInv_def handler_defs Let_def
      split: option.splits if_splits prod.splits syncPc.splits fetchResult.splits)

lemma leftInv_runTimer:
  assumes "leftInv s" "tm \<in> set (timers s)"
  shows "leftInv (runTimer tm s)"
  using assms atMostOne_fired [of _ "timers s" tm]
  by (cases "action tm")
     (auto simp: leftInv_def runTimer_def handler_defs Let_def
      split: option.splits if_splits prod.splits syncPc.splits dest: in_remove1D)

subsection \<open>The lock and timers of the protocol\<close>

lemma syncInv_presence:
  assumes "syncInv s"
  shows "syncInv (onUserJoined u n s)"
    and "syncInv (onUserLeft u n s)"
    and "syncInv (onOnlineUsersUpdated r us s)"
    and "syncInv (onCursorPositionChanged u n l c s)"
    and "syncInv (onUserTyping u n s)"
    and "syncInv (onUserStoppedTyping u s)"
    and "syncInv (onSelectionChanged u n a b c d s)"
    and "syncInv (onSelectionCleared u s)"
  using assms
  by (auto simp: syncInv_def handler_defs Let_def
      split: option.splits if_splits prod.splits)

lemma syncInv_handleSyncContent:
  assumes "syncInv s"
  shows "syncInv (handleSyncContent s)"
  using assms
  by (auto simp: syncInv_def handler_defs Let_def
      split: option.splits if_splits prod.splits)

lemma syncInv_onContentSavedConfirmation:
  assumes "syncInv s"
  shows "syncInv (onContentSavedConfirmation s)"
  using assms
  by (auto simp: syncInv_def handler_defs Let_def
      split: option.splits if_splits prod.splits syncPc.splits)

lemma syncLanguage_frame:
  "timers (syncLanguage r s) = timers s"
  "pc (syncLanguage r s) = pc s"
  "savePendingPromise (syncLanguage r s) = savePendingPromise s"
  "saveTimeoutRef (syncLanguage r s) = saveTimeoutRef s"
  "now (syncLanguage r s) = now s"
  "lastSyncTime (syncLanguage r s) = lastSyncTime s"
  by (simp_all add: syncLanguage_def split: option.splits)

lemma applySyncedContent_frame:
  "timers (applySyncedContent r th s) = timers s"
  "pc (applySyncedContent r th s) = pc s"
  "savePendingPromise (applySyncedContent r th s) = savePendingPromise s"
  "saveTimeoutRef (applySyncedContent r th s) = saveTimeoutRef s"
  "now (applySyncedContent r th s) = now s"
  by (simp_all add: applySyncedContent_def notify_def Let_def)

lemma fetchCompleted_frame:
  "timers (fetchCompleted r th s) = timers s"
  "savePendingPromise (fetchCompleted r th s) = savePendingPromise s"
  "saveTimeoutRef (fetchCompleted r th s) = saveTimeoutRef s"
  "now (fetchCompleted r th s) = now s"
  by (simp_all add: fetchCompleted_def releaseLock_def notify_def syncLanguage_frame
      applySyncedContent_frame split: syncPc.splits fetchResult.splits option.splits)

lemma fetchCompleted_lock:
  "pc s = Fetching rid \<Longrightarrow>
     pc (fetchCompleted r th s) = Idle \<and> \<not> syncExecutingRef (fetchCompleted r th s) \<and>
     \<not> isSyncing (fetchCompleted r th s)"
  by (simp add: fetchCompleted_def releaseLock_def split: fetchResult.splits option.splits)

lemma fetchCompleted_ignored: "\<forall>rid. pc s \<noteq> Fetching rid \<Longrightarrow> fetchCompleted r th s = s"
  by (simp add: fetchCompleted_def split: syncPc.splits)

lemma syncInv_fetchCompleted:
  assumes "syncInv s"
  shows "syncInv (fetchCompleted r th s)"
proof (cases "\<exists>rid. pc s = Fetching rid")
  case True
  then obtain rid where rid: "pc s = Fetching rid" by blast
  show ?thesis
    using assms fetchCompleted_lock [OF rid, of r th] rid
    by (auto simp: syncInv_def fetchCompleted_frame)
next
  case False
  then show ?thesis using assms by (simp add: fetchCompleted_ignored)
qed

lemma syncInv_saveTimer:
  "syncInv s \<Longrightarrow> x \<in> set (timers s) \<Longrightarrow> action x = SaveConfirmationTimeout \<Longrightarrow>
     saveTimeoutRef s = Some (tid x) \<and> savePendingPromise s"
  unfolding syncInv_def by blast

lemma syncInv_runTimer:
  assumes "syncInv s" "timersInv s" "tm \<in> set (timers s)"
  shows "syncInv (runTimer tm s)"
proof -
  have rest: "set (remove1 tm (timers s)) = {x \<in> set (timers s). tid x \<noteq> tid tm}"
    using assms(2,3) by (simp add: timersInv_def remove1_by_tid)
  have one: "action tm = SaveConfirmationTimeout \<Longrightarrow>
      \<forall>x \<in> set (remove1 tm (timers s)). action x \<noteq> SaveConfirmationTimeout"
  proof
    fix x
    assume a: "action tm = SaveConfirmationTimeout" and x: "x \<in> set (remove1 tm (timers s))"
    show "action x \<noteq> SaveConfirmationTimeout"
    proof
      assume "action x = SaveConfirmationTimeout"
      moreover have "x \<in> set (timers s)" "tid x \<noteq> tid tm" using x rest by simp_all
      ultimately have "saveTimeoutRef s = Some (tid x)" "saveTimeoutRef s = Some (tid tm)"
        using syncInv_saveTimer [OF assms(1)] assms(3) a by blast+
      then show False using \<open>tid x \<noteq> tid tm\<close> by simp
    qed
  qed
  show ?thesis
  proof (cases "action tm")
    case SaveConfirmationTimeout
    then show ?thesis
      using assms(1,3) one
      by (auto simp: syncInv_def runTimer_def handler_defs Let_def
          split: syncPc.splits dest: in_remove1D)
  next
    case DatabaseWriteDelay
    then show ?thesis
      using assms(1,3) atMostOne_fired [of DatabaseWriteDelay "timers s" tm]
      by (auto simp: syncInv_def runTimer_def split: syncPc.splits dest: in_remove1D)
  qed (use assms(1) in \<open>auto simp: syncInv_def runTimer_def split: option.splits
         dest: in_remove1D\<close>)
qed

subsection \<open>The clock\<close>

lemma clockInv_step:
  assumes "clockInv s"
  shows "clockInv (onUserJoined u n s)"
    and "clockInv (onUserLeft u n s)"
    and "clockInv (onOnlineUsersUpdated r us s)"
    and "clockInv (onCursorPositionChanged u n l c s)"
    and "clockInv (onUserTyping u n s)"
    and "clockInv (onUserStoppedTyping u s)"
    and "clockInv (onSelectionChanged u n a b c d s)"
    and "clockInv (onSelectionCleared u s)"
    and "clockInv (onContentSavedConfirmation s)"
    and "clockInv (handleSyncContent s)"
    and "clockInv (fetchCompleted r' th s)"
  using assms
  by (auto simp: clockInv_def handler_defs Let_def
      split: option.splits if_splits prod.splits syncPc.splits fetchResult.splits)

lemma clockInv_runTimer:
  assumes "clockInv s"
  shows "clockInv (runTimer tm s)"
  using assms
  by (cases "action tm")
     (auto simp: clockInv_def runTimer_def handler_defs Let_def
      split: option.splits if_splits prod.splits syncPc.splits)

subsection \<open>All reachable states satisfy the invariant\<close>

lemma editorInv_runTimer:
  "editorInv s \<Longrightarrow> tm \<in> set (timers s) \<Longrightarrow> editorInv (runTimer tm s)"
  by (simp add: editorInv_def timersInv_runTimer typingInv_runTimer leftInv_runTimer
      syncInv_runTimer clockInv_runTimer)

lemma editorInv_now: "editorInv s \<Longrightarrow> editorInv (s\<lparr>now := max (now s) t\<rparr>)"
  by (auto simp: editorInv_def timersInv_def typingInv_def leftInv_def syncInv_def clockInv_def)

lemma editorInv_advance: "editorInv s \<Longrightarrow> editorInv (advance t s)"
  by (rule advance_rule [where P = editorInv]) (simp_all add: editorInv_runTimer editorInv_now)

lemma editorInv_step: "editorInv s \<Longrightarrow> editorInv (step e s)"
  by (cases e)
     (simp_all add: editorInv_def timersInv_step typingInv_step leftInv_step syncInv_presence
      syncInv_handleSyncContent syncInv_onContentSavedConfirmation syncInv_fetchCompleted
      clockInv_step editorInv_advance [unfolded editorInv_def])

lemma editorInv_initial: "initial s \<Longrightarrow> editorInv s"
  by (simp add: initial_def editorInv_def timersInv_def typingInv_def leftInv_def syncInv_def
      clockInv_def)

lemma reachable_editorInv: "reachable s \<Longrightarrow> editorInv s"
  by (induction rule: reachable.induct) (simp_all add: editorInv_initial editorInv_step)



section \<open>Colours: ranges and determinism\<close>

lemma hashStep_Num: "\<exists>h. hashStep a c = Num h \<and> - (2 ^ 31) \<le> h \<and> h < 2 ^ 31"
  using sint_range_size [where 'a = 32]
  by (simp add: hashStep_def jand_def Let_def word_size)

lemma hashLoop_Num: "\<exists>h. hashLoop userId = Num h \<and> - (2 ^ 31) \<le> h \<and> h < 2 ^ 31"
proof (cases userId rule: rev_cases)
  case Nil
  then show ?thesis by (simp add: hashLoop_def)
next
  case (snoc ys y)
  then show ?thesis using hashStep_Num [of "foldl hashStep (Num 0) ys" y]
    by (simp add: hashLoop_def)
qed

lemma charCodeAt_last:
  assumes "userId \<noteq> []"
  shows "\<exists>c. charCodeAt userId (int (length userId) - 1) = Num c \<and> 0 \<le> c \<and> c < 65536"
proof -
  have "0 \<le> int (length userId) - 1" using assms by (cases userId) auto
  moreover have "uint (userId ! nat (int (length userId) - 1)) < 2 ^ 16"
    using uint_bounded [of "userId ! nat (int (length userId) - 1)"] by simp
  ultimately show ?thesis by (simp add: charCodeAt_def)
qed

lemma charCodeAt_first:
  assumes "userId \<noteq> []"
  shows "\<exists>c. charCodeAt userId 0 = Num c \<and> 0 \<le> c \<and> c < 65536"
proof -
  have "uint (userId ! 0) < 2 ^ 16"
    using uint_bounded [of "userId ! 0"] by simp
  then show ?thesis using assms by (simp add: charCodeAt_def)
qed

lemma hashSeed_Num:
  assumes "userId \<noteq> []"
  shows "\<exists>h. hashSeed userId = Num h \<and> \<bar>h\<bar> < 2 ^ 31 + 1000 * int (length userId) + 6553600"
proof -
  obtain a where a: "hashLoop userId = Num a" "- (2 ^ 31) \<le> a" "a < 2 ^ 31"
    using hashLoop_Num by blast
  obtain c where c: "charCodeAt userId (int (length userId) - 1) = Num c" "0 \<le> c" "c < 65536"
    using charCodeAt_last [OF assms] by blast
  show ?thesis using a c by (simp add: hashSeed_def)
qed

text \<open>
  The numbers stay where doubles are exact: for a string shorter than \<open>2 ^ 32\<close> code units
  (no engine allows more) the seeded hashes and their products are below \<open>2 ^ 53\<close>.
\<close>

lemma seed_magnitude:
  assumes "userId \<noteq> []" and "int (length userId) < 2 ^ 32"
  shows "\<exists>h. hashSeed userId = Num h \<and> \<bar>h * 7\<bar> < 2 ^ 53"
proof -
  obtain h where h: "hashSeed userId = Num h"
      "\<bar>h\<bar> < 2 ^ 31 + 1000 * int (length userId) + 6553600"
    using hashSeed_Num [OF assms(1)] by blast
  define n where "n = int (length userId)"
  have p: "(2::int) ^ 31 = 2147483648" "(2::int) ^ 32 = 4294967296"
      "(2::int) ^ 53 = 9007199254740992"
    by simp_all
  have "n < 4294967296" using assms(2) unfolding n_def p .
  moreover have "\<bar>h\<bar> < 2147483648 + 1000 * n + 6553600" using h(2) unfolding n_def p .
  ultimately have "\<bar>h\<bar> * 7 < 9007199254740992" by linarith
  moreover have "\<bar>h * 7\<bar> = \<bar>h\<bar> * 7" by (simp add: abs_mult)
  ultimately have "\<bar>h * 7\<bar> < 2 ^ 53" unfolding p by simp
  with h(1) show ?thesis by blast
qed

lemma index_magnitude:
  assumes "userId \<noteq> []" and "int (length userId) < 2 ^ 32"
  shows "\<exists>h. jadd (jadd (hashLoop userId) (jmul (Num (int (length userId))) (Num 31)))
                (jmul (charCodeAt userId 0) (Num 17)) = Num h \<and> \<bar>h\<bar> * 13 < 2 ^ 53"
proof -
  obtain a where a: "hashLoop userId = Num a" "- (2 ^ 31) \<le> a" "a < 2 ^ 31"
    using hashLoop_Num by blast
  obtain c where c: "charCodeAt userId 0 = Num c" "0 \<le> c" "c < 65536"
    using charCodeAt_first [OF assms(1)] by blast
  define n where "n = int (length userId)"
  have p: "(2::int) ^ 31 = 2147483648" "(2::int) ^ 32 = 4294967296"
      "(2::int) ^ 53 = 9007199254740992"
    by simp_all
  have n: "n < 4294967296" "0 \<le> n" using assms(2) unfolding n_def p by simp_all
  have a': "- 2147483648 \<le> a" "a < 2147483648" using a(2,3) unfolding p by simp_all
  define e where "e = a + n * 31 + c * 17"
  have "e < 692878445021" "- 692878445021 < e"
    using n a' c(2,3) unfolding e_def by linarith+
  then have "\<bar>e\<bar> * 13 < 9007199254740992" by linarith
  then have "\<bar>e\<bar> * 13 < 2 ^ 53" unfolding p .
  moreover have "jadd (jadd (hashLoop userId) (jmul (Num (int (length userId))) (Num 31)))
                (jmul (charCodeAt userId 0) (Num 17)) = Num e"
    using a(1) c(1) by (simp add: n_def e_def)
  ultimately show ?thesis by blast
qed







text \<open>
  Within a session a colour is memoized: once \<open>getUserColor\<close> has answered for a
  \<open>userId\<close>, it gives the same answer again, whatever the online users are by then, and
  leaves the cache as it is.
\<close>

lemma getUserColor_memoized:
  assumes "getUserColor online userId m = (c, m')"
  shows "getUserColor online' userId m' = (c, m')"
  using assms
  by (auto simp: getUserColor_def Let_def update_conv' split: option.splits if_splits)

text \<open>With an empty cache the colour is the palette entry of the hash, for any online users.\<close>

lemma getUserColor_fresh:
  "getUserColor online userId [] =
     (paletteAt (paletteIndex userId), [(userId, paletteAt (paletteIndex userId))])"
  by (simp add: getUserColor_def Let_def)

lemma generateHashColor_Hsl: "\<exists>h s l. generateHashColor userId = Hsl h s l"
  by (simp add: generateHashColor_def Let_def)

lemma paletteAt_not_Hsl: "paletteAt i \<noteq> Hsl h s l"
  by (simp add: paletteAt_def split: jsnum.splits)

text \<open>
  When two users fall on the same palette entry and the other one is online and was
  coloured first, the user gets the generated colour instead of the palette entry.
\<close>

lemma getUserColor_collision:
  assumes "a \<noteq> b" and "paletteIndex a = paletteIndex b"
    and "list_ex (\<lambda>u. user_id u = b) online"
  shows "fst (getUserColor online a []) = paletteAt (paletteIndex a)"
    and "fst (getUserColor online a (snd (getUserColor online b []))) = generateHashColor a"
    and "generateHashColor a \<noteq> paletteAt (paletteIndex a)"
proof -
  show "fst (getUserColor online a []) = paletteAt (paletteIndex a)"
    by (simp add: getUserColor_fresh)
  show "fst (getUserColor online a (snd (getUserColor online b []))) = generateHashColor a"
    using assms by (simp add: getUserColor_fresh) (simp add: getUserColor_def Let_def)
  show "generateHashColor a \<noteq> paletteAt (paletteIndex a)"
    using generateHashColor_Hsl [of a] paletteAt_not_Hsl [of "paletteIndex a"] by metis
qed

text \<open>
  C3: the colour of a user is memoized (\<open>getUserColor_memoized\<close>) and two assigners with
  an empty cache agree on it (\<open>getUserColor_fresh\<close>), but two assigners that hold the same
  online users do not always agree.  Users \<open>a\<close> and \<open>f\<close> both hash to palette entry 1.
  An assigner asked for \<open>a\<close> first answers \<open>#FF8C00\<close>; one asked for \<open>f\<close> first answers
  \<open>hsl(339, 87%, 45%)\<close>.  Through \<open>ensureUniqueColorsForAllUsers\<close>: a client that saw \<open>a\<close>
  alone and then \<open>a\<close> and \<open>f\<close>, and a client that saw \<open>f\<close> alone and then \<open>a\<close> and \<open>f\<close>,
  end with the same online users and different colours for \<open>a\<close>.
\<close>

theorem getUserColor_depends_on_call_order:
  "fst (getUserColor [userA, userF] (js ''a'') []) = Css ''#FF8C00'' \<and>
   fst (getUserColor [userA, userF] (js ''a'') (snd (getUserColor [userA, userF] (js ''f'') [])))
     = Hsl (Num 339) (Num 87) (Num 45) \<and>
   map_of (ensureUniqueColorsForAllUsers [userA, userF]
            (ensureUniqueColorsForAllUsers [userA] [])) (js ''a'') = Some (Css ''#FF8C00'') \<and>
   map_of (ensureUniqueColorsForAllUsers [userA, userF]
            (ensureUniqueColorsForAllUsers [userF] [])) (js ''a'')
     = Some (Hsl (Num 339) (Num 87) (Num 45))"
  by (simp add: ensureUniqueColorsForAllUsers_def userA_def userF_def getUserColor_def
      paletteAt_def paletteIndex_def colorPalette_def generateHashColor_def hashSeed_def
      hashLoop_def hashStep_def charCodeAt_def jsar_def jshl_def jand_def js_def Let_def)

section \<open>The event channel: joining a room\<close>

text \<open>
  C10: when the socket is null or not connected, \<open>joinRoom\<close> changes nothing: no
  \<open>join-room\<close> message is emitted and \<open>currentRoomId\<close> stays as it was.  (The function has no
  \<open>throw\<close>: it logs to the console and returns.)
\<close>

theorem joinRoom_without_connection:
  "socket this = None \<or> (\<exists>so. socket this = Some so \<and> \<not> connected so) \<Longrightarrow>
     joinRoom rid u this = this \<and>
     outbox (joinRoom rid u this) = outbox this \<and>
     currentRoomId (joinRoom rid u this) = currentRoomId this"
  by (auto simp: joinRoom_def)

theorem joinRoom_without_connection_witness:
  "joinRoom (js ''r1'') userA \<lparr>socket = None, currentRoomId = Some (js ''r0'')\<rparr>
     = \<lparr>socket = None, currentRoomId = Some (js ''r0'')\<rparr> \<and>
   joinRoom (js ''r1'') userA
       \<lparr>socket = Some \<lparr>connected = False, emitted = []\<rparr>, currentRoomId = None\<rparr>
     = \<lparr>socket = Some \<lparr>connected = False, emitted = []\<rparr>, currentRoomId = None\<rparr>"
  using joinRoom_without_connection [of "\<lparr>socket = None, currentRoomId = Some (js ''r0'')\<rparr>"
      "js ''r1''" userA]
    joinRoom_without_connection
      [of "\<lparr>socket = Some \<lparr>connected = False, emitted = []\<rparr>, currentRoomId = None\<rparr>"
      "js ''r1''" userA]
  by simp

section \<open>Presence: cursor events and typing\<close>


lemma onCursorPositionChanged_colors:
  "userColorMap (onCursorPositionChanged userId name line col s) =
     (if isOwnCursor userId s then userColorMap s
      else snd (getUserColor (onlineUsers s) userId (userColorMap s)))"
  by (simp add: onCursorPositionChanged_def Let_def split: prod.splits)

text \<open>No sequence of cursor events alone ever marks anybody as typing.\<close>

lemma cursor_events_keep_typing:
  "typingUsers (fold (\<lambda>(u, n, l, c). onCursorPositionChanged u n l c) evs s) = typingUsers s"
  by (induction evs arbitrary: s) (auto simp: onCursorPositionChanged_def Let_def split: prod.splits)

section \<open>The save arbitration protocol: cooldown, lock and failures\<close>

lemma advance_lastSyncTime: "lastSyncTime (advance t s) = lastSyncTime s"
proof (rule advance_rule [where P = "\<lambda>s'. lastSyncTime s' = lastSyncTime s"])
  fix s' :: editor and tm
  assume "lastSyncTime s' = lastSyncTime s"
  then show "lastSyncTime (runTimer tm s') = lastSyncTime s"
    by (cases "action tm")
       (auto simp: runTimer_def resolveSavePending_def setTimeout_def Let_def
        split: option.splits syncPc.splits)
qed simp_all

lemma lastSyncTime_presence:
  "lastSyncTime (onUserJoined u n s) = lastSyncTime s"
  "lastSyncTime (onUserLeft u n s) = lastSyncTime s"
  "lastSyncTime (onOnlineUsersUpdated r us s) = lastSyncTime s"
  "lastSyncTime (onCursorPositionChanged u n l c s) = lastSyncTime s"
  "lastSyncTime (onUserTyping u n s) = lastSyncTime s"
  "lastSyncTime (onUserStoppedTyping u s) = lastSyncTime s"
  "lastSyncTime (onSelectionChanged u n a b c d s) = lastSyncTime s"
  "lastSyncTime (onSelectionCleared u s) = lastSyncTime s"
  "lastSyncTime (onContentSavedConfirmation s) = lastSyncTime s"
  "lastSyncTime (handleSyncContent s) = lastSyncTime s"
  by (auto simp: handler_defs Let_def split: option.splits if_splits prod.splits syncPc.splits)

lemma lastSyncTime_fetchCompleted:
  assumes "lastSyncTime (fetchCompleted r th s) \<noteq> lastSyncTime s"
  shows "\<exists>latestRoom rid. r = FetchOk (Some latestRoom) \<and> \<not> th \<and> pc s = Fetching rid \<and>
           syncSucceeded latestRoom s (fetchCompleted r th s)"
  using assms
  by (auto simp: fetchCompleted_def releaseLock_def applySyncedContent_def syncLanguage_def
      notify_def syncSucceeded_def Let_def
      split: syncPc.splits fetchResult.splits option.splits if_splits)

text \<open>
  C1: a sync attempt within 60 s of the last successful one is rejected: nothing is
  emitted, nothing is fetched and the lock is not taken, and the cooldown warning is
  shown when no sync is running and the room is loaded.  With no
  earlier success, or 60 s or more after it, the attempt proceeds: the lock is taken and
  the request (or, for the admin, the fetch) goes out.  And whatever the event, the only
  step that changes \<open>lastSyncTime\<close> is a completed fetch whose content replaced the
  replica; it sets it to the time of that completion.  The hypothesis says that the clock
  and a recorded sync time are positive, as in every reachable state: the truthiness test
  of the guard would read a sync time of 0 as none.
\<close>

theorem sync_cooldown:
  assumes "clockInv s"
  shows "(lastSyncTime s = Some l \<and> now s - l < 60000 \<longrightarrow>
            service (handleSyncContent s) = service s \<and>
            fetches (handleSyncContent s) = fetches s \<and>
            pc (handleSyncContent s) = pc s \<and>
            syncExecutingRef (handleSyncContent s) = syncExecutingRef s \<and>
            (\<not> syncExecutingRef s \<and> \<not> isSyncing s \<and> roomId s = Some rid \<and> rid \<noteq> [] \<and>
             room s \<noteq> None \<longrightarrow>
               handleSyncContent s = notify (SyncCooldownWarning (remainingTime s)) s)) \<and>
         ((lastSyncTime s = None \<or> (\<exists>l. lastSyncTime s = Some l \<and> 60000 \<le> now s - l)) \<and>
          \<not> syncExecutingRef s \<and> \<not> isSyncing s \<and> roomId s = Some rid \<and> rid \<noteq> [] \<and>
          room s \<noteq> None \<longrightarrow>
            syncExecutingRef (handleSyncContent s) \<and>
            (if isRoomAdmin s
             then fetches (handleSyncContent s) = fetches s @ [(rid, True)] \<and>
                  pc (handleSyncContent s) = Fetching rid
             else service (handleSyncContent s) = requestCreatorSave rid (service s) \<and>
                  pc (handleSyncContent s) = AwaitingConfirmation rid)) \<and>
         (lastSyncTime (step e s) \<noteq> lastSyncTime s \<longrightarrow>
            (\<exists>latestRoom. e = FetchCompleted (FetchOk (Some latestRoom)) False \<and>
               syncSucceeded latestRoom s (step e s)))"
proof (intro conjI impI)
  assume "lastSyncTime s = Some l \<and> now s - l < 60000"
  then have "cooldownActive s"
    using assms by (auto simp: cooldownActive_def COOLDOWN_TIME_def clockInv_def)
  then have "handleSyncContent s = s \<or>
             handleSyncContent s = notify (SyncCooldownWarning (remainingTime s)) s"
    by (auto simp: handleSyncContent_def split: option.splits)
  then show "service (handleSyncContent s) = service s"
    "fetches (handleSyncContent s) = fetches s" "pc (handleSyncContent s) = pc s"
    "syncExecutingRef (handleSyncContent s) = syncExecutingRef s"
    by (auto simp: notify_def)
next
  assume "lastSyncTime s = Some l \<and> now s - l < 60000"
    and "\<not> syncExecutingRef s \<and> \<not> isSyncing s \<and> roomId s = Some rid \<and> rid \<noteq> [] \<and>
         room s \<noteq> None"
  moreover from this have "cooldownActive s"
    using assms by (auto simp: cooldownActive_def COOLDOWN_TIME_def clockInv_def)
  ultimately show "handleSyncContent s = notify (SyncCooldownWarning (remainingTime s)) s"
    by (auto simp: handleSyncContent_def split: option.splits)
next
  assume a: "(lastSyncTime s = None \<or> (\<exists>l. lastSyncTime s = Some l \<and> 60000 \<le> now s - l)) \<and>
         \<not> syncExecutingRef s \<and> \<not> isSyncing s \<and> roomId s = Some rid \<and> rid \<noteq> [] \<and>
         room s \<noteq> None"
  then have c: "\<not> cooldownActive s" by (auto simp: cooldownActive_def COOLDOWN_TIME_def)
  have adm: "isRoomAdmin (s\<lparr>syncExecutingRef := True, isSyncing := True,
      notifications := notifications s @ [SyncingLoading]\<rparr>) = isRoomAdmin s"
    by (simp add: isRoomAdmin_def split: option.splits)
  show "syncExecutingRef (handleSyncContent s)"
    using a c by (auto simp: handleSyncContent_def notify_def setTimeout_def Let_def adm)
  show "if isRoomAdmin s
        then fetches (handleSyncContent s) = fetches s @ [(rid, True)] \<and>
             pc (handleSyncContent s) = Fetching rid
        else service (handleSyncContent s) = requestCreatorSave rid (service s) \<and>
             pc (handleSyncContent s) = AwaitingConfirmation rid"
    using a c by (auto simp: handleSyncContent_def notify_def setTimeout_def Let_def adm)
next
  assume changed: "lastSyncTime (step e s) \<noteq> lastSyncTime s"
  show "\<exists>latestRoom. e = FetchCompleted (FetchOk (Some latestRoom)) False \<and>
           syncSucceeded latestRoom s (step e s)"
  proof (cases e)
    case (FetchCompleted r th)
    then show ?thesis using changed lastSyncTime_fetchCompleted [of r th s] by auto
  qed (use changed in \<open>simp_all add: lastSyncTime_presence advance_lastSyncTime\<close>)
qed

theorem sync_cooldown_witness:
  "handleSyncContent (mountedAsMember\<lparr>now := 31000, lastSyncTime := Some 1000\<rparr>)
     = notify (SyncCooldownWarning 30) (mountedAsMember\<lparr>now := 31000, lastSyncTime := Some 1000\<rparr>) \<and>
   pc (handleSyncContent (mountedAsMember\<lparr>now := 61000, lastSyncTime := Some 1000\<rparr>))
     = AwaitingConfirmation (js ''r1'') \<and>
   lastSyncTime (handleSyncContent (mountedAsMember\<lparr>now := 61000, lastSyncTime := Some 1000\<rparr>))
     = Some 1000 \<and>
   lastSyncTime (step (FetchCompleted (FetchOk (Some roomR1)) False)
       (mountedAsMember\<lparr>now := 72000, pc := Fetching (js ''r1'')\<rparr>)) = Some 72000 \<and>
   yjsDoc (step (FetchCompleted (FetchOk (Some roomR1)) False)
       (mountedAsMember\<lparr>now := 72000, pc := Fetching (js ''r1'')\<rparr>)) = Some (js ''fn main() {}'')"
  using sync_cooldown [of "mountedAsMember\<lparr>now := 31000, lastSyncTime := Some 1000\<rparr>" 1000
      "js ''r1''" SyncRequested]
    sync_cooldown [of "mountedAsMember\<lparr>now := 61000, lastSyncTime := Some 1000\<rparr>" 1000
      "js ''r1''" SyncRequested]
    sync_cooldown [of "mountedAsMember\<lparr>now := 72000, pc := Fetching (js ''r1'')\<rparr>" 0
      "js ''r1''" "FetchCompleted (FetchOk (Some roomR1)) False"]
  by (simp add: clockInv_def mountedAsMember_def roomR1_def remainingTime_def COOLDOWN_TIME_def
      isRoomAdmin_def js_def syncSucceeded_def fetchCompleted_def releaseLock_def
      applySyncedContent_def syncLanguage_def notify_def Let_def)

text \<open>
  C2: while an invocation of \<open>handleSyncContent\<close> is in flight (the lock is set, or
  \<open>isSyncing\<close>, or the function is suspended at one of its \<open>await\<close>s) a further invocation
  returns at once and changes nothing, so no second \<open>request-creator-save\<close> is emitted.
  The lock is free after every exit: an invocation that returns at a guard never took it,
  and the end of the function releases it for every outcome of the fetch.
\<close>

theorem sync_single_flight:
  assumes "syncInv s"
  shows "(syncExecutingRef s \<or> isSyncing s \<or> pc s \<noteq> Idle \<longrightarrow>
            handleSyncContent s = s \<and>
            outbox (service (handleSyncContent s)) = outbox (service s)) \<and>
         (pc s = Idle \<and> pc (handleSyncContent s) = Idle \<longrightarrow>
            \<not> syncExecutingRef (handleSyncContent s) \<and> \<not> isSyncing (handleSyncContent s)) \<and>
         (pc s = Fetching rid \<longrightarrow>
            pc (fetchCompleted r th s) = Idle \<and> \<not> syncExecutingRef (fetchCompleted r th s) \<and>
            \<not> isSyncing (fetchCompleted r th s))"
proof (intro conjI impI)
  assume "syncExecutingRef s \<or> isSyncing s \<or> pc s \<noteq> Idle"
  then have busy: "syncExecutingRef s" using assms by (auto simp: syncInv_def)
  then show "handleSyncContent s = s" by (simp add: handleSyncContent_def)
  then show "outbox (service (handleSyncContent s)) = outbox (service s)" by simp
next
  assume "pc s = Idle \<and> pc (handleSyncContent s) = Idle"
  moreover from this have "syncInv (handleSyncContent s)"
    using assms by (simp add: syncInv_handleSyncContent)
  ultimately show "\<not> syncExecutingRef (handleSyncContent s)" "\<not> isSyncing (handleSyncContent s)"
    by (simp_all add: syncInv_def)
next
  assume "pc s = Fetching rid"
  then show "pc (fetchCompleted r th s) = Idle" "\<not> syncExecutingRef (fetchCompleted r th s)"
    "\<not> isSyncing (fetchCompleted r th s)"
    using fetchCompleted_lock [of s rid r th] by simp_all
qed

theorem sync_single_flight_witness:
  "handleSyncContent (handleSyncContent mountedAsMember) = handleSyncContent mountedAsMember \<and>
   outbox (service (handleSyncContent (handleSyncContent mountedAsMember)))
     = [RequestCreatorSave (js ''r1'')] \<and>
   \<not> syncExecutingRef (fetchCompleted (FetchFailed None) False
       (mountedAsMember\<lparr>pc := Fetching (js ''r1''), syncExecutingRef := True, isSyncing := True\<rparr>))"
proof -
  have i: "syncInv (handleSyncContent mountedAsMember)"
    by (rule syncInv_handleSyncContent) (simp add: syncInv_def mountedAsMember_def)
  have b: "syncExecutingRef (handleSyncContent mountedAsMember)"
    "outbox (service (handleSyncContent mountedAsMember)) = [RequestCreatorSave (js ''r1'')]"
    by (simp_all add: handleSyncContent_def mountedAsMember_def roomR1_def js_def isRoomAdmin_def
        cooldownActive_def notify_def setTimeout_def requestCreatorSave_def emit_def outbox_def
        Let_def)
  have j: "syncInv (mountedAsMember\<lparr>pc := Fetching (js ''r1''), syncExecutingRef := True,
      isSyncing := True\<rparr>)"
    by (simp add: syncInv_def mountedAsMember_def)
  show ?thesis
    using sync_single_flight [OF i, of "js ''r1''" "FetchFailed None" False] b
      sync_single_flight [OF j, of "js ''r1''" "FetchFailed None" False]
    by simp
qed



section \<open>Presence: typing expiry and duplicate leave events\<close>

lemma advance_result:
  assumes "P s"
    and run: "\<And>s tm. P s \<Longrightarrow> tm \<in> set (timers s) \<Longrightarrow> due tm \<le> t \<Longrightarrow>
               (\<forall>x \<in> set (timers s). due x \<le> t \<longrightarrow> due tm \<le> due x) \<Longrightarrow> P (runTimer tm s)"
    and stop: "\<And>s. P s \<Longrightarrow> (\<forall>x \<in> set (timers s). t < due x) \<Longrightarrow> Q (s\<lparr>now := max (now s) t\<rparr>)"
  shows "Q (advance t s)"
  using assms
proof (induction t s rule: advance.induct)
  case (1 t s)
  note P = "1.prems"(1) and run = "1.prems"(2) and stop = "1.prems"(3)
  show ?case
  proof (cases "earliest (filter (\<lambda>x. due x \<le> t) (timers s))")
    case None
    then have "\<forall>x \<in> set (timers s). t < due x"
      by (auto simp: earliest_None filter_empty_conv)
    then have "Q (s\<lparr>now := max (now s) t\<rparr>)" using stop P by blast
    then show ?thesis using None by (simp add: advance.simps [of t s])
  next
    case (Some tm)
    have mem: "tm \<in> set (filter (\<lambda>x. due x \<le> t) (timers s))"
      using earliest_in_set [OF Some] .
    have least: "\<forall>x \<in> set (timers s). due x \<le> t \<longrightarrow> due tm \<le> due x"
      using earliest_least [OF Some] by auto
    have "P (runTimer tm s)" using run P least mem by auto
    then have "Q (advance t (runTimer tm s))"
      using "1.IH" [OF Some] run stop by blast
    then show ?thesis using Some by (simp add: advance.simps [of t s])
  qed
qed


text \<open>What a timer callback does to the timers and to the typing flags.\<close>

lemma timers_fire_eq:
  "timers (fire a s) =
     timers s @
     (if a = SaveConfirmationTimeout \<and> savePendingPromise s \<and>
         (\<exists>rid. pc s = AwaitingConfirmation rid)
      then [\<lparr>tid = nextTimerId s, due = now s + 500, action = DatabaseWriteDelay\<rparr>] else [])"
  by (cases a)
     (auto simp: resolveSavePending_def setTimeout_def Let_def split: option.splits syncPc.splits)

lemma timers_fire:
  "x \<in> set (timers (fire a s)) \<Longrightarrow> x \<in> set (timers s) \<or> action x = DatabaseWriteDelay"
  by (auto simp: timers_fire_eq split: if_splits)

lemma timers_fire_mono: "x \<in> set (timers s) \<Longrightarrow> x \<in> set (timers (fire a s))"
  by (simp add: timers_fire_eq)





lemma fire_frame:
  "me (fire a s) = me s"
  "notifications (fire a s) = notifications s"
  "onlineUsers (fire a s) = onlineUsers s"
  "userCursors (fire a s) = userCursors s"
  "userSelections (fire a s) = userSelections s"
  "service (fire a s) = service s"
  "roomId (fire a s) = roomId s"
  "room (fire a s) = room s"
  by (cases a;
      simp add: resolveSavePending_def setTimeout_def Let_def split: option.splits syncPc.splits)+

lemma advance_frame:
  "me (advance t s) = me s \<and> notifications (advance t s) = notifications s \<and>
   onlineUsers (advance t s) = onlineUsers s \<and> userCursors (advance t s) = userCursors s \<and>
   userSelections (advance t s) = userSelections s \<and> service (advance t s) = service s \<and>
   roomId (advance t s) = roomId s \<and> room (advance t s) = room s"
  by (rule advance_rule [where P = "\<lambda>s'. me s' = me s \<and> notifications s' = notifications s \<and>
        onlineUsers s' = onlineUsers s \<and> userCursors s' = userCursors s \<and>
        userSelections s' = userSelections s \<and> service s' = service s \<and>
        roomId s' = roomId s \<and> room s' = room s"])
     (simp_all add: runTimer_def fire_frame)




lemma editorInv_mountedAsMember: "editorInv mountedAsMember"
  by (rule editorInv_initial) (simp add: initial_def mountedAsMember_def)




lemma processed_fire:
  "processedUserLeftEvents (fire a s) =
     (case a of ClearProcessedUserLeft u \<Rightarrow> processedUserLeftEvents s - {u}
      | _ \<Rightarrow> processedUserLeftEvents s)"
  by (cases a)
     (auto simp: resolveSavePending_def setTimeout_def Let_def split: option.splits syncPc.splits)

lemma mark_persists:
  assumes "u \<in> processedUserLeftEvents s"
    and "\<forall>tm \<in> set (timers s). action tm = ClearProcessedUserLeft u \<longrightarrow> t < due tm"
  shows "u \<in> processedUserLeftEvents (advance t s)"
proof (rule advance_result [where P = "\<lambda>s'. u \<in> processedUserLeftEvents s' \<and>
    (\<forall>tm \<in> set (timers s'). action tm = ClearProcessedUserLeft u \<longrightarrow> t < due tm)"])
  show "u \<in> processedUserLeftEvents s \<and>
      (\<forall>tm \<in> set (timers s). action tm = ClearProcessedUserLeft u \<longrightarrow> t < due tm)"
    using assms by simp
next
  fix s' :: editor and tm :: timer
  assume P: "u \<in> processedUserLeftEvents s' \<and>
      (\<forall>tm \<in> set (timers s'). action tm = ClearProcessedUserLeft u \<longrightarrow> t < due tm)"
    and tm: "tm \<in> set (timers s')" "due tm \<le> t"
  let ?s = "s'\<lparr>now := max (now s') (due tm), timers := remove1 tm (timers s')\<rparr>"
  have other: "action tm \<noteq> ClearProcessedUserLeft u" using P tm by auto
  have "u \<in> processedUserLeftEvents (fire (action tm) ?s)"
    using P other by (auto simp: processed_fire split: timerAction.splits)
  moreover have "\<forall>x \<in> set (timers (fire (action tm) ?s)).
      action x = ClearProcessedUserLeft u \<longrightarrow> t < due x"
  proof (intro ballI impI)
    fix x
    assume x: "x \<in> set (timers (fire (action tm) ?s))" "action x = ClearProcessedUserLeft u"
    then have "x \<in> set (timers ?s)" using timers_fire [OF x(1)] by simp
    then have "x \<in> set (timers s')" by (auto dest: in_remove1D)
    then show "t < due x" using P x(2) by blast
  qed
  ultimately show "u \<in> processedUserLeftEvents (runTimer tm s') \<and>
      (\<forall>x \<in> set (timers (runTimer tm s')). action x = ClearProcessedUserLeft u \<longrightarrow> t < due x)"
    by (simp add: runTimer_def)
qed simp

lemma mark_expires:
  assumes "u \<notin> processedUserLeftEvents s \<or>
    (\<exists>tm \<in> set (timers s). action tm = ClearProcessedUserLeft u \<and> due tm \<le> t)"
  shows "u \<notin> processedUserLeftEvents (advance t s)"
proof (rule advance_result [where P = "\<lambda>s'. u \<notin> processedUserLeftEvents s' \<or>
    (\<exists>tm \<in> set (timers s'). action tm = ClearProcessedUserLeft u \<and> due tm \<le> t)"])
  show "u \<notin> processedUserLeftEvents s \<or>
    (\<exists>tm \<in> set (timers s). action tm = ClearProcessedUserLeft u \<and> due tm \<le> t)"
    using assms .
next
  fix s' :: editor and tm :: timer
  assume P: "u \<notin> processedUserLeftEvents s' \<or>
      (\<exists>tm \<in> set (timers s'). action tm = ClearProcessedUserLeft u \<and> due tm \<le> t)"
    and tm: "tm \<in> set (timers s')"
  let ?s = "s'\<lparr>now := max (now s') (due tm), timers := remove1 tm (timers s')\<rparr>"
  show "u \<notin> processedUserLeftEvents (runTimer tm s') \<or>
      (\<exists>x \<in> set (timers (runTimer tm s')). action x = ClearProcessedUserLeft u \<and> due x \<le> t)"
  proof (cases "u \<notin> processedUserLeftEvents s' \<or> action tm = ClearProcessedUserLeft u")
    case True
    then have "u \<notin> processedUserLeftEvents (fire (action tm) ?s)"
      by (auto simp: processed_fire split: timerAction.splits)
    then show ?thesis by (simp add: runTimer_def)
  next
    case False
    then obtain x where x: "x \<in> set (timers s')" "action x = ClearProcessedUserLeft u" "due x \<le> t"
      using P by blast
    then have "x \<noteq> tm" using False by auto
    then have "x \<in> set (remove1 tm (timers s'))" using x(1) by simp
    then have "x \<in> set (timers (fire (action tm) ?s))"
      by (intro timers_fire_mono) simp
    then show ?thesis using x by (auto simp: runTimer_def)
  qed
next
  fix s' :: editor
  assume "u \<notin> processedUserLeftEvents s' \<or>
      (\<exists>tm \<in> set (timers s'). action tm = ClearProcessedUserLeft u \<and> due tm \<le> t)"
    and "\<forall>x \<in> set (timers s'). t < due x"
  then show "u \<notin> processedUserLeftEvents (s'\<lparr>now := max (now s') t\<rparr>)" by fastforce
qed

lemma colorCleaned_fire:
  "colorCleaned u s \<or> a = CleanColorMapping u \<Longrightarrow> colorCleaned u (fire a s)"
  by (cases a)
     (auto simp: colorCleaned_def resolveSavePending_def setTimeout_def Let_def delete_conv
      split: option.splits syncPc.splits)

lemma color_cleanup:
  assumes "colorCleaned u s \<or>
    (\<exists>tm \<in> set (timers s). action tm = CleanColorMapping u \<and> due tm \<le> t)"
  shows "colorCleaned u (advance t s)"
proof (rule advance_result [where P = "\<lambda>s'. colorCleaned u s' \<or>
    (\<exists>tm \<in> set (timers s'). action tm = CleanColorMapping u \<and> due tm \<le> t)"])
  show "colorCleaned u s \<or> (\<exists>tm \<in> set (timers s). action tm = CleanColorMapping u \<and> due tm \<le> t)"
    using assms .
next
  fix s' :: editor and tm :: timer
  assume P: "colorCleaned u s' \<or>
      (\<exists>tm \<in> set (timers s'). action tm = CleanColorMapping u \<and> due tm \<le> t)"
    and tm: "tm \<in> set (timers s')"
  let ?s = "s'\<lparr>now := max (now s') (due tm), timers := remove1 tm (timers s')\<rparr>"
  show "colorCleaned u (runTimer tm s') \<or>
      (\<exists>x \<in> set (timers (runTimer tm s')). action x = CleanColorMapping u \<and> due x \<le> t)"
  proof (cases "colorCleaned u s' \<or> action tm = CleanColorMapping u")
    case True
    then have "colorCleaned u ?s \<or> action tm = CleanColorMapping u"
      by (auto simp: colorCleaned_def)
    then have "colorCleaned u (fire (action tm) ?s)" by (rule colorCleaned_fire)
    then show ?thesis by (simp add: runTimer_def)
  next
    case False
    then obtain x where x: "x \<in> set (timers s')" "action x = CleanColorMapping u" "due x \<le> t"
      using P by blast
    then have "x \<noteq> tm" using False by auto
    then have "x \<in> set (remove1 tm (timers s'))" using x(1) by simp
    then have "x \<in> set (timers (fire (action tm) ?s))"
      by (intro timers_fire_mono) simp
    then show ?thesis using x by (auto simp: runTimer_def)
  qed
next
  fix s' :: editor
  assume "colorCleaned u s' \<or>
      (\<exists>tm \<in> set (timers s'). action tm = CleanColorMapping u \<and> due tm \<le> t)"
    and "\<forall>x \<in> set (timers s'). t < due x"
  then show "colorCleaned u (s'\<lparr>now := max (now s') t\<rparr>)"
    by (fastforce simp: colorCleaned_def)
qed


text \<open>
  C7: the first \<open>user-left\<close> for a user performs the side effects once (the user leaves
  \<open>onlineUsers\<close>, the cursor, the selection and the typing flag are removed, the
  notification is shown, the colour clean-up is armed and has run 100 ms later) and marks
  the user; a second delivery less than 5 s later changes nothing at all; from 5 s on the
  mark is gone and a further leave of the same user is processed again.
\<close>

theorem user_left_deduplicated:
  assumes "leftInv s" and "u \<notin> processedUserLeftEvents s"
  shows "onUserLeft u n s =
           s\<lparr>processedUserLeftEvents := insert u (processedUserLeftEvents s),
             timers := timers s @
               [\<lparr>tid = nextTimerId s, due = now s + 5000, action = ClearProcessedUserLeft u\<rparr>,
                \<lparr>tid = Suc (nextTimerId s), due = now s + 100, action = CleanColorMapping u\<rparr>],
             nextTimerId := Suc (Suc (nextTimerId s)),
             onlineUsers := filter (\<lambda>x. user_id x \<noteq> u) (onlineUsers s),
             userCursors := (userCursors s)(u := None),
             userSelections := (userSelections s)(u := None),
             typingUsers := typingUsers s - {u},
             notifications := notifications s @ [UserLeftInfo n]\<rparr> \<and>
         (\<forall>t. now s + 100 \<le> t \<longrightarrow> colorCleaned u (advance t (onUserLeft u n s))) \<and>
         (\<forall>t n'. t < now s + 5000 \<longrightarrow>
            onUserLeft u n' (advance t (onUserLeft u n s)) = advance t (onUserLeft u n s)) \<and>
         (\<forall>t n'. now s + 5000 \<le> t \<longrightarrow>
            u \<notin> processedUserLeftEvents (advance t (onUserLeft u n s)) \<and>
            notifications (onUserLeft u n' (advance t (onUserLeft u n s))) =
              notifications s @ [UserLeftInfo n, UserLeftInfo n'])"
proof -
  let ?T1 = "\<lparr>tid = nextTimerId s, due = now s + 5000, action = ClearProcessedUserLeft u\<rparr>"
  let ?T2 = "\<lparr>tid = Suc (nextTimerId s), due = now s + 100, action = CleanColorMapping u\<rparr>"
  let ?s1 = "onUserLeft u n s"
  have eq: "?s1 =
           s\<lparr>processedUserLeftEvents := insert u (processedUserLeftEvents s),
             timers := timers s @ [?T1, ?T2],
             nextTimerId := Suc (Suc (nextTimerId s)),
             onlineUsers := filter (\<lambda>x. user_id x \<noteq> u) (onlineUsers s),
             userCursors := (userCursors s)(u := None),
             userSelections := (userSelections s)(u := None),
             typingUsers := typingUsers s - {u},
             notifications := notifications s @ [UserLeftInfo n]\<rparr>"
    using assms(2) by (simp add: onUserLeft_def setTimeout_def notify_def Let_def)
  have none: "\<forall>tm \<in> set (timers s). action tm \<noteq> ClearProcessedUserLeft u"
    using assms by (auto simp: leftInv_def)
  have tms: "timers ?s1 = timers s @ [?T1, ?T2]" by (subst eq) simp
  have marked: "u \<in> processedUserLeftEvents ?s1" by (subst eq) simp
  have msgs: "notifications ?s1 = notifications s @ [UserLeftInfo n]" by (subst eq) simp
  have cleaned: "colorCleaned u (advance t ?s1)" if "now s + 100 \<le> t" for t
  proof -
    have "\<exists>tm \<in> set (timers ?s1). action tm = CleanColorMapping u \<and> due tm \<le> t"
      using that unfolding tms by (intro bexI [of _ ?T2]) simp_all
    then show ?thesis by (intro color_cleanup) simp
  qed
  have dup: "onUserLeft u n' (advance t ?s1) = advance t ?s1" if "t < now s + 5000" for t n'
  proof -
    have "\<forall>tm \<in> set (timers ?s1). action tm = ClearProcessedUserLeft u \<longrightarrow> t < due tm"
      using that none unfolding tms by auto
    then have "u \<in> processedUserLeftEvents (advance t ?s1)"
      using marked by (rule mark_persists [rotated])
    then show ?thesis by (simp add: onUserLeft_def)
  qed
  have later: "u \<notin> processedUserLeftEvents (advance t ?s1) \<and>
      notifications (onUserLeft u n' (advance t ?s1)) =
        notifications s @ [UserLeftInfo n, UserLeftInfo n']" if "now s + 5000 \<le> t" for t n'
  proof -
    have "\<exists>tm \<in> set (timers ?s1). action tm = ClearProcessedUserLeft u \<and> due tm \<le> t"
      using that unfolding tms by (intro bexI [of _ ?T1]) simp_all
    then have un: "u \<notin> processedUserLeftEvents (advance t ?s1)" by (intro mark_expires) simp
    have "notifications (advance t ?s1) = notifications s @ [UserLeftInfo n]"
      using advance_frame [of t ?s1] msgs by simp
    then show ?thesis
      using un by (simp add: onUserLeft_def setTimeout_def notify_def Let_def)
  qed
  show ?thesis using eq cleaned dup later by blast
qed

theorem user_left_deduplicated_witness:
  "notifications (onUserLeft (js ''a'') (js ''A'') mountedAsMember) = [UserLeftInfo (js ''A'')] \<and>
   onUserLeft (js ''a'') (js ''A'') (advance 5999 (onUserLeft (js ''a'') (js ''A'') mountedAsMember))
     = advance 5999 (onUserLeft (js ''a'') (js ''A'') mountedAsMember) \<and>
   notifications (onUserLeft (js ''a'') (js ''A'')
       (advance 6000 (onUserLeft (js ''a'') (js ''A'') mountedAsMember)))
     = [UserLeftInfo (js ''A''), UserLeftInfo (js ''A'')] \<and>
   colorCleaned (js ''a'') (advance 1100 (onUserLeft (js ''a'') (js ''A'') mountedAsMember))"
proof -
  have l: "leftInv mountedAsMember" using editorInv_mountedAsMember by (simp add: editorInv_def)
  have p: "js ''a'' \<notin> processedUserLeftEvents mountedAsMember" by (simp add: mountedAsMember_def)
  have n: "now mountedAsMember = 1000" "notifications mountedAsMember = []"
    by (simp_all add: mountedAsMember_def)
  note th = user_left_deduplicated [OF l p, of "js ''A''", unfolded n]
  have "notifications (onUserLeft (js ''a'') (js ''A'') mountedAsMember) = [UserLeftInfo (js ''A'')]"
    by (subst th [THEN conjunct1]) simp
  moreover have "colorCleaned (js ''a'') (advance 1100 (onUserLeft (js ''a'') (js ''A'') mountedAsMember))"
    using th [THEN conjunct2, THEN conjunct1] by simp
  moreover have "onUserLeft (js ''a'') (js ''A'')
      (advance 5999 (onUserLeft (js ''a'') (js ''A'') mountedAsMember))
     = advance 5999 (onUserLeft (js ''a'') (js ''A'') mountedAsMember)"
    using th [THEN conjunct2, THEN conjunct2, THEN conjunct1] by simp
  moreover have "notifications (onUserLeft (js ''a'') (js ''A'')
       (advance 6000 (onUserLeft (js ''a'') (js ''A'') mountedAsMember)))
     = [UserLeftInfo (js ''A''), UserLeftInfo (js ''A'')]"
    using th [THEN conjunct2, THEN conjunct2, THEN conjunct2] by simp
  ultimately show ?thesis by simp
qed

section \<open>The save arbitration protocol: waiting for the confirmation\<close>














lemma now_frame [simp]:
  "awaiting rid F k d s \<Longrightarrow> t \<le> d \<Longrightarrow> awaiting rid F k d (s\<lparr>now := max (now s) t\<rparr>)"
  "settling rid F b e (s\<lparr>now := n\<rparr>) = settling rid F b e s"
  "fetching rid F (s\<lparr>now := n\<rparr>) = fetching rid F s"
  by (simp_all add: awaiting_def settling_def fetching_def syncTimers_def)














end
